theory Spec2Isabelle
  imports Main
begin

section \<open>Strings, exceptions and time\<close>

text \<open>
  A Python \<^verbatim>\<open>str\<close> is a sequence of Unicode code points and \<^verbatim>\<open>len\<close> counts code
  points, so a string is a list of code points here. ASCII literals of the source are
  written through \<open>u\<close>; the Cyrillic literals are given by their code points.
\<close>

type_synonym pystr = "nat list"

definition u :: "string \<Rightarrow> pystr" where
  "u s = map of_char s"

definition startswith :: "pystr \<Rightarrow> pystr \<Rightarrow> bool" where
  "startswith s p = (take (length p) s = p)"

text \<open>Truthiness of an optional string: \<^verbatim>\<open>None\<close> and \<^verbatim>\<open>''\<close> are both false.\<close>

fun truthy :: "pystr option \<Rightarrow> bool" where
  "truthy None = False"
| "truthy (Some s) = (s \<noteq> [])"

text \<open>\<^verbatim>\<open>xs[:n]\<close>: a negative bound counts from the end.\<close>

definition slice_to :: "int \<Rightarrow> 'a list \<Rightarrow> 'a list" where
  "slice_to n xs = (if 0 \<le> n then take (nat n) xs else take (length xs - nat (- n)) xs)"

text \<open>\<^verbatim>\<open>str(n)\<close> of a non-negative integer, as it appears inside an f-string.\<close>

fun str_nat :: "nat \<Rightarrow> pystr" where
  "str_nat n = (if n < 10 then [48 + n] else str_nat (n div 10) @ [48 + n mod 10])"

declare str_nat.simps [simp del]

datatype exn = AttributeError | KeyError | IndexError | ValueError | PendingRollbackError

text \<open>
  The two ways the lookup of a link can raise, each with the text of its exception. The
  session flushes its pending rows before it queries. When that flush fails, the session
  rolls its transaction back and expires the objects it has loaded, and refuses every
  further access until \<^verbatim>\<open>rollback()\<close> is called. When the flush goes through and the query
  itself fails, the session and its objects are as they were.
\<close>

datatype lookup_failure = FlushFailed pystr | QueryFailed pystr

text \<open>
  A naive \<^verbatim>\<open>datetime\<close> is the number of microseconds since 0001-01-01T00:00:00, the
  proleptic Gregorian count the \<^verbatim>\<open>datetime\<close> module uses. The constructor
  \<^verbatim>\<open>datetime(y, m, d, H, M, S)\<close> raises \<^verbatim>\<open>ValueError\<close> outside its ranges.
\<close>

type_synonym datetime = int

definition is_leap :: "int \<Rightarrow> bool" where
  "is_leap y = (y mod 4 = 0 \<and> (y mod 100 \<noteq> 0 \<or> y mod 400 = 0))"

definition days_in_month :: "int \<Rightarrow> int \<Rightarrow> int" where
  "days_in_month y m =
     (if m = 2 then (if is_leap y then 29 else 28)
      else if m = 4 \<or> m = 6 \<or> m = 9 \<or> m = 11 then 30 else 31)"

definition days_before_year :: "int \<Rightarrow> int" where
  "days_before_year y = (y - 1) * 365 + (y - 1) div 4 - (y - 1) div 100 + (y - 1) div 400"

definition days_before_month :: "int \<Rightarrow> int \<Rightarrow> int" where
  "days_before_month y m =
     [0, 31, 59, 90, 120, 151, 181, 212, 243, 273, 304, 334] ! nat (m - 1)
     + (if 2 < m \<and> is_leap y then 1 else 0)"

definition microseconds_per_day :: int where
  "microseconds_per_day = 86400 * 1000000"

definition mk_datetime :: "int \<times> int \<times> int \<times> int \<times> int \<times> int \<Rightarrow> datetime option" where
  "mk_datetime t =
     (case t of (y, m, d, hh, mm, ss) \<Rightarrow>
        if 1 \<le> y \<and> y \<le> 9999 \<and> 1 \<le> m \<and> m \<le> 12 \<and> 1 \<le> d \<and> d \<le> days_in_month y m
           \<and> 0 \<le> hh \<and> hh \<le> 23 \<and> 0 \<le> mm \<and> mm \<le> 59 \<and> 0 \<le> ss \<and> ss \<le> 59
        then Some ((days_before_year y + days_before_month y m + d - 1) * microseconds_per_day
                   + ((hh * 60 + mm) * 60 + ss) * 1000000)
        else None)"

text \<open>\<^verbatim>\<open>timedelta(days=n)\<close>.\<close>

definition timedelta_days :: "int \<Rightarrow> int" where
  "timedelta_days n = n * microseconds_per_day"

section \<open>Data model\<close>

record category =
  cat_id :: int
  cat_name :: pystr
  cat_display_name :: pystr
  cat_description :: "pystr option"

record source =
  src_id :: int
  src_name :: pystr
  src_url :: pystr
  src_rss_url :: pystr
  src_category_id :: int
  src_is_active :: bool

text \<open>
  The dictionary \<^verbatim>\<open>article_data\<close> built by \<^verbatim>\<open>fetch_rss_feed\<close>, and the \<^verbatim>\<open>Article\<close> row
  made from it. Surrogate ids and the creation timestamps the database fills in are not
  part of the rows; \<open>is_active\<close> and \<open>view_count\<close> carry their column defaults.
\<close>

record article_data =
  ad_title :: pystr
  ad_description :: pystr
  ad_link :: pystr
  ad_published_at :: datetime
  ad_guid :: pystr
  ad_source_id :: int
  ad_category_id :: int
  ad_image_url :: "pystr option"

record article =
  title :: pystr
  description :: pystr
  content :: "pystr option"
  link :: pystr
  image_url :: "pystr option"
  published_at :: datetime
  category_id :: int
  source_id :: int
  is_active :: bool
  view_count :: int
  guid :: pystr

record update_log =
  log_source_id :: int
  status :: pystr
  message :: pystr
  articles_count :: nat

record database =
  categories :: "category list"
  sources :: "source list"
  articles :: "article list"
  update_logs :: "update_log list"

text \<open>
  A parsed feed entry. Every field the code probes with \<^verbatim>\<open>hasattr\<close> is optional; a list
  field that is absent and one that is empty are both falsy and are both \<open>[]\<close>.
  \<open>e_published_parsed\<close> is \<open>None\<close> when the attribute is absent or holds \<^verbatim>\<open>None\<close>.
\<close>

record media =
  media_type :: "pystr option"
  media_url :: "pystr option"

record enclosure =
  enc_type :: "pystr option"
  enc_href :: "pystr option"

record entry =
  e_published_parsed :: "(int \<times> int \<times> int \<times> int \<times> int \<times> int) option"
  e_published :: "pystr option"
  e_summary :: "pystr option"
  e_description :: "pystr option"
  e_media_content :: "media list"
  e_media_thumbnail :: "media list"
  e_enclosures :: "enclosure list"
  e_content :: "pystr option list"
  e_title :: "pystr option"
  e_id :: "pystr option"
  e_link :: "pystr option"

datatype env_value = Unset | IntValue int | Malformed

text \<open>
  Everything outside the program: the network, the libraries that parse what comes from
  it, the clock, the environment and the outcome of storage operations. \<open>None\<close> from
  \<open>feedparser_parse\<close>, \<open>dateutil_parse\<close>, \<open>urlparse\<close> and \<open>newspaper_text\<close> is the call
  raising. \<open>dateutil_parse\<close> returns the wall-clock reading and the UTC offset in
  microseconds when the string carries one. \<open>find_img_srcs\<close> lists the \<^verbatim>\<open>src\<close> attribute
  of every \<^verbatim>\<open>img\<close> tag in document order. \<open>query_error\<close> says for which source and link
  the lookup \<^verbatim>\<open>Article.query.filter_by(link=...).first()\<close> raises, and in which of the two
  ways. The clock is read once for a cycle or a request. What the code writes to its
  logger is not modelled, except where building the message raises.
\<close>

record world =
  feedparser_parse :: "pystr \<Rightarrow> entry list option"
  getenv_max_articles :: env_value
  utcnow :: datetime
  dateutil_parse :: "pystr \<Rightarrow> (datetime \<times> int option) option"
  get_text :: "pystr \<Rightarrow> pystr"
  find_img_srcs :: "pystr \<Rightarrow> pystr option list"
  urlparse :: "pystr \<Rightarrow> (pystr \<times> pystr) option"
  newspaper_text :: "pystr \<Rightarrow> pystr option"
  query_error :: "int \<Rightarrow> pystr \<Rightarrow> lookup_failure option"
  commit_ok :: bool

section \<open>extract_article_content\<close>

definition extract_article_content :: "world \<Rightarrow> pystr \<Rightarrow> pystr option" where
  "extract_article_content w url =
     (case newspaper_text w url of
        None \<Rightarrow> None
      | Some text \<Rightarrow> Some (if length text > 5000 then take 5000 text else text))"

section \<open>fetch_rss_feed\<close>

subsection \<open>Published timestamp\<close>

definition entry_published_at :: "world \<Rightarrow> entry \<Rightarrow> datetime" where
  "entry_published_at w e =
     (case e_published_parsed e of
        Some t \<Rightarrow> (case mk_datetime t of Some d \<Rightarrow> d | None \<Rightarrow> utcnow w)
      | None \<Rightarrow>
          (case e_published e of
             Some s \<Rightarrow> (case dateutil_parse w s of Some (d, tz) \<Rightarrow> d | None \<Rightarrow> utcnow w)
           | None \<Rightarrow> utcnow w))"

subsection \<open>Description and title\<close>

text \<open>The \<^verbatim>\<open>summary\<close> field, else the \<^verbatim>\<open>description\<close> field, else \<^verbatim>\<open>''\<close>.\<close>

definition raw_description :: "entry \<Rightarrow> pystr" where
  "raw_description e =
     (case e_summary e of
        Some s \<Rightarrow> s
      | None \<Rightarrow> (case e_description e of Some d \<Rightarrow> d | None \<Rightarrow> []))"

definition entry_description :: "world \<Rightarrow> entry \<Rightarrow> pystr" where
  "entry_description w e =
     (let description = raw_description e
      in if description \<noteq> [] then
           (let text = get_text w description
            in if length text > 1000 then take 1000 text @ u ''...'' else text)
         else description)"

definition no_title :: pystr where
  "no_title = [1041, 1077, 1079, 32, 1079, 1072, 1075, 1086, 1083, 1086, 1074, 1082, 1072]"

definition entry_title :: "entry \<Rightarrow> pystr" where
  "entry_title e = (case e_title e of Some t \<Rightarrow> take 500 t | None \<Rightarrow> no_title)"

subsection \<open>Image URL\<close>

text \<open>The loop over \<^verbatim>\<open>entry.media_content\<close>; \<^verbatim>\<open>media['url']\<close> raises when the key is missing.\<close>

definition is_image_media :: "media \<Rightarrow> bool" where
  "is_image_media m =
     startswith (case media_type m of Some t \<Rightarrow> t | None \<Rightarrow> []) (u ''image/'')"

fun first_image_media :: "media list \<Rightarrow> exn + pystr option" where
  "first_image_media [] = Inr None"
| "first_image_media (m # ms) =
     (if is_image_media m
      then (case media_url m of Some x \<Rightarrow> Inr (Some x) | None \<Rightarrow> Inl KeyError)
      else first_image_media ms)"

text \<open>\<^verbatim>\<open>ms[0]['url']\<close>.\<close>

fun first_url :: "media list \<Rightarrow> exn + pystr option" where
  "first_url [] = Inl IndexError"
| "first_url (m # ms) = (case media_url m of Some x \<Rightarrow> Inr (Some x) | None \<Rightarrow> Inl KeyError)"

text \<open>The loop over \<^verbatim>\<open>entry.enclosures\<close>; \<^verbatim>\<open>enclosure.href\<close> raises when it is missing.\<close>

definition is_image_enclosure :: "enclosure \<Rightarrow> bool" where
  "is_image_enclosure x =
     (case enc_type x of Some t \<Rightarrow> startswith t (u ''image/'') | None \<Rightarrow> False)"

fun first_image_enclosure :: "enclosure list \<Rightarrow> exn + pystr option" where
  "first_image_enclosure [] = Inr None"
| "first_image_enclosure (x # xs) =
     (if is_image_enclosure x
      then (case enc_href x of Some h \<Rightarrow> Inr (Some h) | None \<Rightarrow> Inl AttributeError)
      else first_image_enclosure xs)"

text \<open>
  The \<^verbatim>\<open>if\<close> / \<^verbatim>\<open>elif\<close> / \<^verbatim>\<open>elif\<close> over the structured fields. An exception is paired
  with the value \<^verbatim>\<open>image_url\<close> holds when it is raised.
\<close>

definition structured_image :: "entry \<Rightarrow> (exn \<times> pystr option) + pystr option" where
  "structured_image e =
     (if e_media_content e \<noteq> [] then
        (case first_image_media (e_media_content e) of
           Inl x \<Rightarrow> Inl (x, None)
         | Inr img \<Rightarrow>
             if \<not> truthy img then
               (case first_url (e_media_content e) of
                  Inl x \<Rightarrow> Inl (x, img)
                | Inr img' \<Rightarrow> Inr img')
             else Inr img)
      else if e_media_thumbnail e \<noteq> [] then
        (case first_url (e_media_thumbnail e) of Inl x \<Rightarrow> Inl (x, None) | Inr img \<Rightarrow> Inr img)
      else if e_enclosures e \<noteq> [] then
        (case first_image_enclosure (e_enclosures e) of
           Inl x \<Rightarrow> Inl (x, None)
         | Inr img \<Rightarrow> Inr img)
      else Inr None)"

definition content_to_search :: "entry \<Rightarrow> exn + pystr" where
  "content_to_search e =
     (case e_content e of
        c # _ \<Rightarrow> (case c of Some v \<Rightarrow> Inr v | None \<Rightarrow> Inl AttributeError)
      | [] \<Rightarrow> (case e_summary e of Some s \<Rightarrow> Inr s | None \<Rightarrow> Inr []))"

text \<open>\<^verbatim>\<open>src and (src.startswith('http') or src.startswith('/'))\<close>.\<close>

definition usable_src :: "pystr option \<Rightarrow> bool" where
  "usable_src src =
     (case src of
        Some s \<Rightarrow> s \<noteq> [] \<and> (startswith s (u ''http'') \<or> startswith s (u ''/''))
      | None \<Rightarrow> False)"

fun first_img_src :: "pystr option list \<Rightarrow> pystr option" where
  "first_img_src [] = None"
| "first_img_src (src # rest) = (if usable_src src then src else first_img_src rest)"

text \<open>The block under \<^verbatim>\<open>if not image_url\<close>, given the value found so far.\<close>

definition scan_markup :: "world \<Rightarrow> entry \<Rightarrow> pystr option \<Rightarrow> exn + pystr option" where
  "scan_markup w e img =
     (case content_to_search e of
        Inl x \<Rightarrow> Inl x
      | Inr c \<Rightarrow>
          if c \<noteq> [] then
            (case first_img_src (find_img_srcs w c) of Some s \<Rightarrow> Inr (Some s) | None \<Rightarrow> Inr img)
          else Inr img)"

text \<open>The block under the comment that checks the URL.\<close>

definition fix_image_url :: "world \<Rightarrow> source \<Rightarrow> pystr option \<Rightarrow> exn + pystr option" where
  "fix_image_url w src img =
     (case img of
        None \<Rightarrow> Inr None
      | Some x \<Rightarrow>
          if x \<noteq> [] \<and> \<not> startswith x (u ''http'') then
            (if startswith x (u ''//'') then Inr (Some (u ''https:'' @ x))
             else if startswith x (u ''/'') then
               (case urlparse w (src_url src) of
                  Some (scheme, netloc) \<Rightarrow> Inr (Some (scheme @ u ''://'' @ netloc @ x))
                | None \<Rightarrow> Inl ValueError)
             else Inr img)
          else Inr img)"

text \<open>
  The whole \<^verbatim>\<open>try\<close> block: an exception leaves \<^verbatim>\<open>image_url\<close> at the value it had when
  the exception was raised.
\<close>

definition checked_image_url :: "world \<Rightarrow> source \<Rightarrow> pystr option \<Rightarrow> pystr option" where
  "checked_image_url w src img =
     (case fix_image_url w src img of Inl _ \<Rightarrow> img | Inr img' \<Rightarrow> img')"

definition entry_image_url :: "world \<Rightarrow> source \<Rightarrow> entry \<Rightarrow> pystr option" where
  "entry_image_url w src e =
     (case structured_image e of
        Inl (_, img) \<Rightarrow> img
      | Inr img1 \<Rightarrow>
          (case (if \<not> truthy img1 then scan_markup w e img1 else Inr img1) of
             Inl _ \<Rightarrow> img1
           | Inr img2 \<Rightarrow> checked_image_url w src img2))"

subsection \<open>One entry, and the feed\<close>

text \<open>\<^verbatim>\<open>entry.get('id', entry.get('link', ''))\<close>.\<close>

definition entry_guid :: "entry \<Rightarrow> pystr" where
  "entry_guid e =
     (case e_id e of Some i \<Rightarrow> i | None \<Rightarrow> (case e_link e of Some l \<Rightarrow> l | None \<Rightarrow> []))"

text \<open>
  The body of the loop over the entries. \<^verbatim>\<open>entry.link\<close> is an attribute access without
  a guard: on an entry with no link it raises \<^verbatim>\<open>AttributeError\<close>.
\<close>

definition normalize_entry :: "world \<Rightarrow> source \<Rightarrow> entry \<Rightarrow> exn + article_data" where
  "normalize_entry w src e =
     (let published = entry_published_at w e;
          description = entry_description w e;
          image = entry_image_url w src e;
          g = entry_guid e
      in case e_link e of
           None \<Rightarrow> Inl AttributeError
         | Some l \<Rightarrow>
             Inr \<lparr> ad_title = entry_title e, ad_description = description, ad_link = l,
                   ad_published_at = published, ad_guid = g, ad_source_id = src_id src,
                   ad_category_id = src_category_id src, ad_image_url = image \<rparr>)"

fun normalize_entries :: "world \<Rightarrow> source \<Rightarrow> entry list \<Rightarrow> exn + article_data list" where
  "normalize_entries w src [] = Inr []"
| "normalize_entries w src (e # es) =
     (case normalize_entry w src e of
        Inl x \<Rightarrow> Inl x
      | Inr a \<Rightarrow> (case normalize_entries w src es of Inl x \<Rightarrow> Inl x | Inr as \<Rightarrow> Inr (a # as)))"

text \<open>
  \<^verbatim>\<open>fetch_rss_feed\<close>: the outer \<^verbatim>\<open>except Exception\<close> turns every exception of the body
  (the parse call, \<^verbatim>\<open>int(...)\<close> of the environment value, a missing link) into \<^verbatim>\<open>[]\<close>.
\<close>

definition fetch_rss_feed :: "world \<Rightarrow> source \<Rightarrow> article_data list" where
  "fetch_rss_feed w src =
     (case feedparser_parse w (src_rss_url src) of
        None \<Rightarrow> []
      | Some entries \<Rightarrow>
          (case (case getenv_max_articles w of
                   Unset \<Rightarrow> Inr 50 | IntValue n \<Rightarrow> Inr n | Malformed \<Rightarrow> Inl ValueError) of
             Inl _ \<Rightarrow> []
           | Inr max_articles \<Rightarrow>
               (case normalize_entries w src (slice_to max_articles entries) of
                  Inl _ \<Rightarrow> []
                | Inr as \<Rightarrow> as)))"

section \<open>update_news\<close>

text \<open>
  The rows added to \<^verbatim>\<open>db.session\<close> during a cycle and not yet committed. A cycle runs
  in its own application context, so it starts with nothing pending.
\<close>

record session =
  pending_articles :: "article list"
  pending_logs :: "update_log list"

definition empty_session :: session where
  "empty_session = \<lparr> pending_articles = [], pending_logs = [] \<rparr>"

text \<open>
  \<^verbatim>\<open>Article.query.filter_by(link=...).first()\<close>. The session flushes before it queries, so
  the lookup sees the committed rows and the rows added earlier in the same cycle. There
  is a flush, and so a flush that can fail, only when the session holds pending rows.
\<close>

definition article_query_first ::
  "world \<Rightarrow> database \<Rightarrow> session \<Rightarrow> source \<Rightarrow> pystr \<Rightarrow> lookup_failure + article option"
  where
  "article_query_first w db sess src l =
     (case query_error w (src_id src) l of
        Some (FlushFailed m) \<Rightarrow>
          if pending_articles sess = [] \<and> pending_logs sess = []
          then Inr (find (\<lambda>a. link a = l) (articles db @ pending_articles sess))
          else Inl (FlushFailed m)
      | Some (QueryFailed m) \<Rightarrow> Inl (QueryFailed m)
      | None \<Rightarrow> Inr (find (\<lambda>a. link a = l) (articles db @ pending_articles sess)))"

text \<open>\<^verbatim>\<open>Article(**article_data)\<close>, with the content key set or left out.\<close>

definition make_article :: "article_data \<Rightarrow> pystr option \<Rightarrow> article" where
  "make_article d c =
     \<lparr> title = ad_title d, description = ad_description d, content = c, link = ad_link d,
       image_url = ad_image_url d, published_at = ad_published_at d,
       category_id = ad_category_id d, source_id = ad_source_id d,
       is_active = True, view_count = 0, guid = ad_guid d \<rparr>"

text \<open>
  The loop over \<^verbatim>\<open>articles_data\<close> with its counter. An exception leaves the loop with the
  rows added so far still in the session.
\<close>

fun stage_articles ::
  "world \<Rightarrow> database \<Rightarrow> source \<Rightarrow> article_data list \<Rightarrow> session \<Rightarrow> nat
     \<Rightarrow> session \<times> (lookup_failure + nat)"
  where
  "stage_articles w db src [] sess n = (sess, Inr n)"
| "stage_articles w db src (d # ds) sess n =
     (case article_query_first w db sess src (ad_link d) of
        Inl x \<Rightarrow> (sess, Inl x)
      | Inr (Some existing) \<Rightarrow> stage_articles w db src ds sess n
      | Inr None \<Rightarrow>
          (let full_content = extract_article_content w (ad_link d);
               a = make_article d (if truthy full_content then full_content else None)
           in stage_articles w db src ds
                (sess\<lparr>pending_articles := pending_articles sess @ [a]\<rparr>) (n + 1)))"

definition success_message :: "nat \<Rightarrow> nat \<Rightarrow> pystr" where
  "success_message processed new =
     [1059, 1089, 1087, 1077, 1096, 1085, 1086, 32,
      1086, 1073, 1088, 1072, 1073, 1086, 1090, 1072, 1085, 1086, 32]
     @ str_nat processed @ [32, 1089, 1090, 1072, 1090, 1077, 1081, 44, 32]
     @ str_nat new @ [32, 1085, 1086, 1074, 1099, 1093]"

text \<open>The message of the error row, from the text of the caught exception.\<close>

definition error_message :: "pystr \<Rightarrow> pystr" where
  "error_message m = [1054, 1096, 1080, 1073, 1082, 1072, 58, 32] @ m"

text \<open>
  The body of the loop over the sources: the \<^verbatim>\<open>try\<close> and its \<^verbatim>\<open>except\<close>. The handler
  starts by reading \<^verbatim>\<open>source.name\<close> for its log line. After a failed flush the source
  object is expired and the session refuses to load it, so the read raises
  \<^verbatim>\<open>PendingRollbackError\<close> inside the handler: no error row is added and the exception
  leaves the loop. After a failed query the name is still loaded and the handler adds the
  error row to the session, which still holds the rows staged before.
\<close>

definition process_source :: "world \<Rightarrow> database \<Rightarrow> session \<Rightarrow> source \<Rightarrow> exn + session" where
  "process_source w db sess src =
     (let articles_data = fetch_rss_feed w src
      in case stage_articles w db src articles_data sess 0 of
           (sess', Inr new_articles_count) \<Rightarrow>
             Inr (sess'\<lparr>pending_logs := pending_logs sess' @
               [\<lparr> log_source_id = src_id src, status = u ''success'',
                  message = success_message (length articles_data) new_articles_count,
                  articles_count = new_articles_count \<rparr>]\<rparr>)
         | (sess', Inl (QueryFailed m)) \<Rightarrow>
             Inr (sess'\<lparr>pending_logs := pending_logs sess' @
               [\<lparr> log_source_id = src_id src, status = u ''error'',
                  message = error_message m, articles_count = 0 \<rparr>]\<rparr>)
         | (sess', Inl (FlushFailed m)) \<Rightarrow> Inl PendingRollbackError)"

text \<open>\<^verbatim>\<open>Source.query.filter_by(is_active=True).all()\<close> and the loop over its result.\<close>

definition active_sources :: "database \<Rightarrow> source list" where
  "active_sources db = filter src_is_active (sources db)"

text \<open>An exception that leaves the body ends the loop: the later sources are not reached.\<close>

fun run_sources :: "world \<Rightarrow> database \<Rightarrow> source list \<Rightarrow> session \<Rightarrow> exn + session" where
  "run_sources w db [] sess = Inr sess"
| "run_sources w db (src # srcs) sess =
     (case process_source w db sess src of
        Inl x \<Rightarrow> Inl x
      | Inr sess' \<Rightarrow> run_sources w db srcs sess')"

text \<open>
  \<^verbatim>\<open>db.session.commit()\<close> writes the pending rows to their tables and leaves the session
  empty; \<open>None\<close> is the commit raising, which writes nothing.
\<close>

definition commit :: "world \<Rightarrow> database \<times> session \<Rightarrow> (database \<times> session) option" where
  "commit w st =
     (case st of (db, sess) \<Rightarrow>
        if commit_ok w
        then Some (db\<lparr>articles := articles db @ pending_articles sess,
                      update_logs := update_logs db @ pending_logs sess\<rparr>, empty_session)
        else None)"

text \<open>\<^verbatim>\<open>db.session.rollback()\<close> drops what the session holds.\<close>

definition rollback :: "database \<times> session \<Rightarrow> database \<times> session" where
  "rollback st = (fst st, empty_session)"

text \<open>
  The cycle: every source, then one \<^verbatim>\<open>commit\<close>, and one \<^verbatim>\<open>rollback\<close> when the commit
  raises. The session belongs to the application context the cycle opens, so the tables
  are what is left of a cycle. An exception that leaves the loop over the sources leaves
  \<^verbatim>\<open>update_news\<close> too, before the commit: the context is closed with nothing written.
  \<open>update_news\<close> gives the tables after the call and \<open>update_news_raises\<close> the exception
  the call ends with, if any.
\<close>

definition update_news :: "world \<Rightarrow> database \<Rightarrow> database" where
  "update_news w db =
     (case run_sources w db (active_sources db) empty_session of
        Inl x \<Rightarrow> db
      | Inr sess \<Rightarrow>
          (case commit w (db, sess) of
             Some st \<Rightarrow> fst st
           | None \<Rightarrow> fst (rollback (db, sess))))"

definition update_news_raises :: "world \<Rightarrow> database \<Rightarrow> exn option" where
  "update_news_raises w db =
     (case run_sources w db (active_sources db) empty_session of
        Inl x \<Rightarrow> Some x
      | Inr sess \<Rightarrow> None)"

section \<open>Read side\<close>

definition seven_days_ago :: "world \<Rightarrow> datetime" where
  "seven_days_ago w = utcnow w - timedelta_days 7"

record pagination =
  pg_items :: "article list"
  pg_page :: int
  pg_per_page :: int
  pg_total :: nat

text \<open>
  \<^verbatim>\<open>paginate(page, per_page, error_out=False)\<close>: a page below 1 becomes 1, a page size
  below 1 becomes 20.
\<close>

definition paginate :: "article list \<Rightarrow> int \<Rightarrow> int \<Rightarrow> pagination" where
  "paginate rows page per_page =
     (let page' = (if page < 1 then 1 else page);
          per_page' = (if per_page < 1 then 20 else per_page)
      in \<lparr> pg_items = take (nat per_page') (drop (nat ((page' - 1) * per_page')) rows),
           pg_page = page', pg_per_page = per_page', pg_total = length rows \<rparr>)"

definition order_by_published_desc :: "article list \<Rightarrow> article list" where
  "order_by_published_desc rows = sort_key (\<lambda>a. - published_at a) rows"

text \<open>\<^verbatim>\<open>if source_id: query = query.filter_by(source_id=source_id)\<close>.\<close>

definition filter_source :: "int option \<Rightarrow> article list \<Rightarrow> article list" where
  "filter_source source_arg rows =
     (case source_arg of
        Some sid \<Rightarrow> if sid \<noteq> 0 then filter (\<lambda>a. source_id a = sid) rows else rows
      | None \<Rightarrow> rows)"

definition index :: "world \<Rightarrow> database \<Rightarrow> int option \<Rightarrow> int option \<Rightarrow> pagination" where
  "index w db page_arg source_arg =
     (let page = (case page_arg of Some p \<Rightarrow> p | None \<Rightarrow> 1);
          query = filter (\<lambda>a. published_at a \<ge> seven_days_ago w)
                    (filter is_active (articles db))
      in paginate (order_by_published_desc (filter_source source_arg query)) page 20)"

text \<open>The routes of a category answer 404 (\<open>None\<close>) when the category does not exist.\<close>

definition category_news ::
  "world \<Rightarrow> database \<Rightarrow> pystr \<Rightarrow> int option \<Rightarrow> int option \<Rightarrow> pagination option" where
  "category_news w db category_name page_arg source_arg =
     (case find (\<lambda>c. cat_name c = category_name) (categories db) of
        None \<Rightarrow> None
      | Some cat \<Rightarrow>
          (let page = (case page_arg of Some p \<Rightarrow> p | None \<Rightarrow> 1);
               query = filter (\<lambda>a. published_at a \<ge> seven_days_ago w)
                         (filter (\<lambda>a. category_id a = cat_id cat \<and> is_active a) (articles db))
           in Some (paginate (order_by_published_desc (filter_source source_arg query)) page 20)))"

definition api_news :: "world \<Rightarrow> database \<Rightarrow> int option \<Rightarrow> int option \<Rightarrow> pagination" where
  "api_news w db page_arg per_page_arg =
     (let page = (case page_arg of Some p \<Rightarrow> p | None \<Rightarrow> 1);
          per_page = min (case per_page_arg of Some p \<Rightarrow> p | None \<Rightarrow> 20) 100
      in paginate (order_by_published_desc
                     (filter (\<lambda>a. published_at a \<ge> seven_days_ago w)
                        (filter is_active (articles db)))) page per_page)"

definition api_category_news ::
  "world \<Rightarrow> database \<Rightarrow> pystr \<Rightarrow> int option \<Rightarrow> int option \<Rightarrow> pagination option" where
  "api_category_news w db category_name page_arg per_page_arg =
     (case find (\<lambda>c. cat_name c = category_name) (categories db) of
        None \<Rightarrow> None
      | Some cat \<Rightarrow>
          (let page = (case page_arg of Some p \<Rightarrow> p | None \<Rightarrow> 1);
               per_page = min (case per_page_arg of Some p \<Rightarrow> p | None \<Rightarrow> 20) 100
           in Some (paginate (order_by_published_desc
                     (filter (\<lambda>a. published_at a \<ge> seven_days_ago w)
                        (filter (\<lambda>a. category_id a = cat_id cat \<and> is_active a) (articles db))))
                     page per_page)))"

record stats =
  total_articles :: nat
  total_sources :: nat
  stats_categories :: "(pystr \<times> pystr \<times> nat) list"

definition api_stats :: "world \<Rightarrow> database \<Rightarrow> stats" where
  "api_stats w db =
     \<lparr> total_articles =
         length (filter (\<lambda>a. published_at a \<ge> seven_days_ago w)
                   (filter is_active (articles db))),
       total_sources = length (filter src_is_active (sources db)),
       stats_categories =
         map (\<lambda>c. (cat_name c, cat_display_name c,
                   length (filter (\<lambda>a. published_at a \<ge> seven_days_ago w)
                             (filter (\<lambda>a. category_id a = cat_id c \<and> is_active a)
                                (articles db)))))
             (categories db) \<rparr>"

section \<open>Links in storage\<close>

text \<open>The links a lookup can find: those of the committed and of the pending rows.\<close>

definition stored_links :: "database \<Rightarrow> session \<Rightarrow> pystr set" where
  "stored_links db sess = link ` set (articles db @ pending_articles sess)"

text \<open>
  The content an article is staged with: \<^verbatim>\<open>full_content\<close> when it is truthy, no content
  otherwise.
\<close>

definition staged_content :: "world \<Rightarrow> pystr \<Rightarrow> pystr option" where
  "staged_content w l =
     (let full_content = extract_article_content w l
      in if truthy full_content then full_content else None)"

text \<open>An article row with its content column blanked.\<close>

definition without_content :: "article \<Rightarrow> article" where
  "without_content a = a\<lparr>content := None\<rparr>"

section \<open>Example feeds, sources and databases\<close>

definition ex_media_video :: media where
  "ex_media_video = \<lparr> media_type = Some (u ''video/mp4''),
                        media_url = Some (u ''http://v/1.mp4'') \<rparr>"

definition ex_media_image :: media where
  "ex_media_image = \<lparr> media_type = Some (u ''image/png''),
                        media_url = Some (u ''//cdn.example.com/a.jpg'') \<rparr>"

definition ex_thumbnail :: media where
  "ex_thumbnail = \<lparr> media_type = None, media_url = Some (u ''http://t/1.png'') \<rparr>"

definition ex_enclosure_audio :: enclosure where
  "ex_enclosure_audio = \<lparr> enc_type = Some (u ''audio/mpeg''),
                            enc_href = Some (u ''http://e/1.mp3'') \<rparr>"

definition ex_enclosure_image :: enclosure where
  "ex_enclosure_image = \<lparr> enc_type = Some (u ''image/jpeg''),
                            enc_href = Some (u ''http://e/2.jpg'') \<rparr>"

definition ex_entry_a :: entry where
  "ex_entry_a = \<lparr> e_published_parsed = Some (2024, 3, 1, 12, 30, 15), e_published = None,
      e_summary = Some (u ''hi''), e_description = None,
      e_media_content = [ex_media_video, ex_media_image],
      e_media_thumbnail = [], e_enclosures = [], e_content = [],
      e_title = Some (u ''A''), e_id = Some (u ''id-a''), e_link = Some (u ''a'') \<rparr>"

definition ex_entry_b :: entry where
  "ex_entry_b = \<lparr> e_published_parsed = None, e_published = Some (u ''1 Mar 2024 +0100''),
      e_summary = None, e_description = None,
      e_media_content = [], e_media_thumbnail = [], e_enclosures = [],
      e_content = [Some (u ''<img src=/img/a.jpg>'')],
      e_title = None, e_id = None, e_link = Some (u ''b'') \<rparr>"

definition ex_entry_nolink :: entry where
  "ex_entry_nolink = \<lparr> e_published_parsed = None, e_published = None,
      e_summary = None, e_description = None,
      e_media_content = [], e_media_thumbnail = [], e_enclosures = [], e_content = [],
      e_title = Some (u ''N''), e_id = None, e_link = None \<rparr>"

definition ex_entry_long :: entry where
  "ex_entry_long = \<lparr> e_published_parsed = Some (2024, 2, 30, 0, 0, 0),
      e_published = Some (u ''1 Mar 2024 +0100''),
      e_summary = None, e_description = Some (replicate 1001 100),
      e_media_content = [], e_media_thumbnail = [], e_enclosures = [], e_content = [],
      e_title = Some (replicate 501 116), e_id = None, e_link = Some (u ''c'') \<rparr>"

definition ex_entry_thumbnail :: entry where
  "ex_entry_thumbnail = \<lparr> e_published_parsed = None, e_published = None,
      e_summary = None, e_description = None, e_media_content = [],
      e_media_thumbnail = [ex_thumbnail],
      e_enclosures = [ex_enclosure_image],
      e_content = [], e_title = None, e_id = None, e_link = Some (u ''t'') \<rparr>"

definition ex_entry_enclosure :: entry where
  "ex_entry_enclosure = \<lparr> e_published_parsed = None, e_published = None,
      e_summary = None, e_description = None, e_media_content = [], e_media_thumbnail = [],
      e_enclosures = [ex_enclosure_audio, ex_enclosure_image],
      e_content = [], e_title = None, e_id = None, e_link = Some (u ''e'') \<rparr>"

definition ex_world :: world where
  "ex_world = \<lparr>
      feedparser_parse =
        (\<lambda>url. if url = u ''rss1'' then Some [ex_entry_a, ex_entry_b] else None),
      getenv_max_articles = Unset,
      utcnow = 63845000000000000,
      dateutil_parse = (\<lambda>s. if s = u ''1 Mar 2024 +0100''
                              then Some (63844848000000000, Some 3600000000) else None),
      get_text = (\<lambda>s. s),
      find_img_srcs = (\<lambda>c. if c = u ''<img src=/img/a.jpg>''
                             then [None, Some (u ''data:x''), Some (u ''/img/a.jpg'')] else []),
      urlparse = (\<lambda>s. if s = u ''https://news.example.com/''
                        then Some (u ''https'', u ''news.example.com'') else None),
      newspaper_text = (\<lambda>l. if l = u ''a'' then Some (u ''body'') else None),
      query_error = (\<lambda>_ _. None),
      commit_ok = True \<rparr>"

text \<open>The same world with an entry without a link between the two entries of the feed.\<close>

definition ex_world_nolink :: world where
  "ex_world_nolink = ex_world\<lparr>feedparser_parse :=
      (\<lambda>url. if url = u ''rss1'' then Some [ex_entry_a, ex_entry_nolink, ex_entry_b]
              else None)\<rparr>"

text \<open>
  The same world where the flush before the lookup of the second link fails, and the one
  where that lookup's query fails.
\<close>

definition ex_world_flush_fails :: world where
  "ex_world_flush_fails = ex_world\<lparr>query_error :=
      (\<lambda>_ l. if l = u ''b'' then Some (FlushFailed (u ''too long'')) else None)\<rparr>"

definition ex_world_query_fails :: world where
  "ex_world_query_fails = ex_world\<lparr>query_error :=
      (\<lambda>_ l. if l = u ''b'' then Some (QueryFailed (u ''timeout'')) else None)\<rparr>"

text \<open>The same world with a commit that raises.\<close>

definition ex_world_commit_fails :: world where
  "ex_world_commit_fails = ex_world\<lparr>commit_ok := False\<rparr>"

text \<open>The same world a microsecond later.\<close>

definition ex_world_later :: world where
  "ex_world_later = ex_world\<lparr>utcnow := 63845000000000001\<rparr>"

definition ex_source :: source where
  "ex_source = \<lparr> src_id = 1, src_name = u ''One'', src_url = u ''https://news.example.com/'',
      src_rss_url = u ''rss1'', src_category_id = 7, src_is_active = True \<rparr>"

definition ex_source_inactive :: source where
  "ex_source_inactive = \<lparr> src_id = 2, src_name = u ''Two'',
      src_url = u ''https://two.example.com/'', src_rss_url = u ''rss1'',
      src_category_id = 7, src_is_active = False \<rparr>"

definition ex_source_down :: source where
  "ex_source_down = \<lparr> src_id = 3, src_name = u ''Three'',
      src_url = u ''https://three.example.com/'', src_rss_url = u ''rss3'',
      src_category_id = 7, src_is_active = True \<rparr>"

definition ex_category :: category where
  "ex_category = \<lparr> cat_id = 7, cat_name = u ''tech'', cat_display_name = u ''Tech'',
      cat_description = None \<rparr>"

definition ex_db :: database where
  "ex_db = \<lparr> categories = [ex_category],
             sources = [ex_source, ex_source_inactive, ex_source_down],
             articles = [], update_logs = [] \<rparr>"

definition ex_data_a :: article_data where
  "ex_data_a = \<lparr> ad_title = u ''A'', ad_description = u ''hi'', ad_link = u ''a'',
      ad_published_at = 63844893015000000, ad_guid = u ''id-a'', ad_source_id = 1,
      ad_category_id = 7, ad_image_url = Some (u ''https://cdn.example.com/a.jpg'') \<rparr>"

definition ex_data_b :: article_data where
  "ex_data_b = \<lparr> ad_title = no_title, ad_description = [], ad_link = u ''b'',
      ad_published_at = 63844848000000000, ad_guid = u ''b'', ad_source_id = 1,
      ad_category_id = 7, ad_image_url = Some (u ''https://news.example.com/img/a.jpg'') \<rparr>"

definition ex_article_a :: article where
  "ex_article_a = \<lparr> title = u ''A'', description = u ''hi'', content = Some (u ''body''),
      link = u ''a'', image_url = Some (u ''https://cdn.example.com/a.jpg''),
      published_at = 63844893015000000, category_id = 7, source_id = 1,
      is_active = True, view_count = 0, guid = u ''id-a'' \<rparr>"

definition ex_article_b :: article where
  "ex_article_b = \<lparr> title = no_title, description = [], content = None,
      link = u ''b'', image_url = Some (u ''https://news.example.com/img/a.jpg''),
      published_at = 63844848000000000, category_id = 7, source_id = 1,
      is_active = True, view_count = 0, guid = u ''b'' \<rparr>"

text \<open>An article published more than seven days before the clock of \<open>ex_world\<close>.\<close>

definition ex_article_old :: article where
  "ex_article_old = \<lparr> title = u ''O'', description = [], content = None,
      link = u ''o'', image_url = None,
      published_at = 63844000000000000, category_id = 7, source_id = 1,
      is_active = True, view_count = 0, guid = u ''o'' \<rparr>"

definition ex_db_read :: database where
  "ex_db_read = \<lparr> categories = [ex_category], sources = [ex_source],
                  articles = [ex_article_old, ex_article_a], update_logs = [] \<rparr>"

text \<open>An article dated after the clock of \<open>ex_world\<close>, and a table that holds it.\<close>

definition ex_article_future :: article where
  "ex_article_future = \<lparr> title = u ''F'', description = [], content = None,
      link = u ''f'', image_url = None,
      published_at = 63846000000000000, category_id = 7, source_id = 1,
      is_active = True, view_count = 0, guid = u ''f'' \<rparr>"

definition ex_db_future :: database where
  "ex_db_future = \<lparr> categories = [ex_category], sources = [ex_source],
                    articles = [ex_article_future], update_logs = [] \<rparr>"

text \<open>
  An entry whose media element declares an image type and has no \<^verbatim>\<open>url\<close>, with a
  thumbnail, an image enclosure and an \<^verbatim>\<open>img\<close> tag in its content.
\<close>

definition ex_media_nourl :: media where
  "ex_media_nourl = \<lparr> media_type = Some (u ''image/png''), media_url = None \<rparr>"

definition ex_entry_nourl :: entry where
  "ex_entry_nourl = \<lparr> e_published_parsed = None, e_published = None,
      e_summary = None, e_description = None,
      e_media_content = [ex_media_nourl],
      e_media_thumbnail = [ex_thumbnail],
      e_enclosures = [ex_enclosure_image],
      e_content = [Some (u ''<img src=/img/a.jpg>'')],
      e_title = Some (u ''U''), e_id = None, e_link = Some (u ''n'') \<rparr>"
section \<open>Properties of the image search\<close>

lemma first_image_media_split:
  "\<forall>p\<in>set pre. \<not> is_image_media p \<Longrightarrow> is_image_media m \<Longrightarrow>
   first_image_media (pre @ m # post) =
     (case media_url m of Some x \<Rightarrow> Inr (Some x) | None \<Rightarrow> Inl KeyError)"
  by (induction pre) auto

lemma first_image_media_none:
  "\<forall>p\<in>set ms. \<not> is_image_media p \<Longrightarrow> first_image_media ms = Inr None"
  by (induction ms) auto

lemma first_image_enclosure_split:
  "\<forall>p\<in>set pre. \<not> is_image_enclosure p \<Longrightarrow> is_image_enclosure c \<Longrightarrow>
   first_image_enclosure (pre @ c # post) =
     (case enc_href c of Some x \<Rightarrow> Inr (Some x) | None \<Rightarrow> Inl AttributeError)"
  by (induction pre) auto

lemma first_image_enclosure_none:
  "\<forall>p\<in>set xs. \<not> is_image_enclosure p \<Longrightarrow> first_image_enclosure xs = Inr None"
  by (induction xs) auto

lemma first_img_src_split:
  "\<forall>p\<in>set pre. \<not> usable_src p \<Longrightarrow> usable_src s \<Longrightarrow>
   first_img_src (pre @ s # post) = s"
  by (induction pre) auto

lemma first_img_src_none:
  "\<forall>p\<in>set xs. \<not> usable_src p \<Longrightarrow> first_img_src xs = None"
  by (induction xs) auto

lemma image_from_media_type:
  assumes "e_media_content e = pre @ m # post" "\<forall>p\<in>set pre. \<not> is_image_media p"
    "is_image_media m" "media_url m = Some x" "x \<noteq> []"
  shows "entry_image_url w src e = checked_image_url w src (Some x)"
  using assms by (simp add: entry_image_url_def structured_image_def first_image_media_split)

lemma image_from_first_media:
  assumes "e_media_content e = m # rest" "\<forall>p\<in>set (m # rest). \<not> is_image_media p"
    "media_url m = Some x" "x \<noteq> []"
  shows "entry_image_url w src e = checked_image_url w src (Some x)"
  using assms first_image_media_none [of "m # rest"]
  by (simp add: entry_image_url_def structured_image_def)

lemma image_from_thumbnail:
  assumes "e_media_content e = []" "e_media_thumbnail e = m # rest"
    "media_url m = Some x" "x \<noteq> []"
  shows "entry_image_url w src e = checked_image_url w src (Some x)"
  using assms by (simp add: entry_image_url_def structured_image_def)

lemma image_from_enclosure:
  assumes "e_media_content e = []" "e_media_thumbnail e = []"
    "e_enclosures e = pre @ c # post" "\<forall>p\<in>set pre. \<not> is_image_enclosure p"
    "is_image_enclosure c" "enc_href c = Some x" "x \<noteq> []"
  shows "entry_image_url w src e = checked_image_url w src (Some x)"
  using assms
  by (simp add: entry_image_url_def structured_image_def first_image_enclosure_split)

lemma structured_none:
  assumes "e_media_content e = []" "e_media_thumbnail e = []"
    "\<forall>c\<in>set (e_enclosures e). \<not> is_image_enclosure c"
  shows "structured_image e = Inr None"
  using assms by (simp add: structured_image_def first_image_enclosure_none)

lemma image_from_markup:
  assumes "e_media_content e = []" "e_media_thumbnail e = []"
    "\<forall>c\<in>set (e_enclosures e). \<not> is_image_enclosure c"
    "content_to_search e = Inr c" "c \<noteq> []" "find_img_srcs w c = pre @ Some x # post"
    "\<forall>p\<in>set pre. \<not> usable_src p" "usable_src (Some x)"
  shows "entry_image_url w src e = checked_image_url w src (Some x)"
  using assms
  by (simp add: entry_image_url_def structured_none scan_markup_def first_img_src_split)

lemma no_image:
  assumes "e_media_content e = []" "e_media_thumbnail e = []"
    "\<forall>c\<in>set (e_enclosures e). \<not> is_image_enclosure c"
    "content_to_search e = Inr c" "\<forall>p\<in>set (find_img_srcs w c). \<not> usable_src p"
  shows "entry_image_url w src e = None"
  using assms
  by (simp add: entry_image_url_def structured_none scan_markup_def first_img_src_none
        checked_image_url_def fix_image_url_def)

lemma startswith_slashes:
  "startswith x (u ''//'') \<Longrightarrow> x \<noteq> [] \<and> \<not> startswith x (u ''http'') \<and> startswith x (u ''/'')"
  by (cases x) (auto simp: startswith_def u_def split: list.splits)

lemma startswith_slash:
  "startswith x (u ''/'') \<Longrightarrow> x \<noteq> [] \<and> \<not> startswith x (u ''http'')"
  by (cases x) (auto simp: startswith_def u_def)

lemma checked_protocol_relative:
  "startswith x (u ''//'') \<Longrightarrow> checked_image_url w src (Some x) = Some (u ''https:'' @ x)"
  using startswith_slashes [of x] by (simp add: checked_image_url_def fix_image_url_def)

lemma checked_root_relative:
  "startswith x (u ''/'') \<Longrightarrow> \<not> startswith x (u ''//'') \<Longrightarrow>
   urlparse w (src_url src) = Some (scheme, netloc) \<Longrightarrow>
   checked_image_url w src (Some x) = Some (scheme @ u ''://'' @ netloc @ x)"
  using startswith_slash [of x] by (simp add: checked_image_url_def fix_image_url_def)

lemma checked_other:
  "startswith x (u ''http'') \<or> \<not> startswith x (u ''/'') \<Longrightarrow>
   checked_image_url w src (Some x) = Some x"
  using startswith_slashes [of x] startswith_slash [of x]
  by (auto simp: checked_image_url_def fix_image_url_def)

lemma extract_article_content_take:
  "extract_article_content w url = map_option (take 5000) (newspaper_text w url)"
  by (simp add: extract_article_content_def split: option.splits)


section \<open>Properties of staging and of the loop over the sources\<close>

lemma find_link_None:
  "find (\<lambda>a. link a = l) xs = None \<longleftrightarrow> l \<notin> link ` set xs"
  by (auto simp: find_None_iff)

lemma query_first_None:
  "article_query_first w db sess src l = Inr None \<Longrightarrow> l \<notin> stored_links db sess"
  by (auto simp: article_query_first_def stored_links_def find_link_None
           split: option.splits lookup_failure.splits if_splits)

lemma query_first_Some:
  "article_query_first w db sess src l = Inr (Some a) \<Longrightarrow> l \<in> stored_links db sess"
  using find_link_None [of l "articles db @ pending_articles sess"]
  by (auto simp: article_query_first_def stored_links_def
           split: option.splits lookup_failure.splits if_splits)

lemma query_first_stored:
  "l \<in> stored_links db sess \<Longrightarrow>
   (\<exists>x. article_query_first w db sess src l = Inl x)
   \<or> (\<exists>a. article_query_first w db sess src l = Inr (Some a))"
  using find_link_None [of l "articles db @ pending_articles sess"]
  by (auto simp: article_query_first_def stored_links_def
           split: option.splits lookup_failure.splits if_splits)

lemma query_first_no_error:
  "query_error w (src_id src) l = None \<Longrightarrow> \<exists>r. article_query_first w db sess src l = Inr r"
  by (simp add: article_query_first_def)

lemma stage_articles_shape:
  "\<exists>new. fst (stage_articles w db src ds sess n) =
            sess\<lparr>pending_articles := pending_articles sess @ new\<rparr>
       \<and> distinct (map link new)
       \<and> link ` set new \<inter> stored_links db sess = {}
       \<and> link ` set new \<subseteq> ad_link ` set ds
       \<and> (\<forall>k. snd (stage_articles w db src ds sess n) = Inr k \<longrightarrow> k = n + length new)"
proof (induction ds arbitrary: sess n)
  case Nil
  show ?case by (rule exI [of _ "[]"]) simp
next
  case (Cons d ds)
  show ?case
  proof (cases "article_query_first w db sess src (ad_link d)")
    case (Inl x)
    then show ?thesis by (intro exI [of _ "[]"]) simp
  next
    case (Inr r)
    show ?thesis
    proof (cases r)
      case (Some a)
      from Cons.IH [of sess n] obtain new where
        "fst (stage_articles w db src ds sess n) =
            sess\<lparr>pending_articles := pending_articles sess @ new\<rparr>"
        "distinct (map link new)" "link ` set new \<inter> stored_links db sess = {}"
        "link ` set new \<subseteq> ad_link ` set ds"
        "\<forall>k. snd (stage_articles w db src ds sess n) = Inr k \<longrightarrow> k = n + length new"
        by blast
      then show ?thesis using Inr Some
        by (intro exI [of _ new]) auto
    next
      case None
      define a where "a = make_article d
        (if truthy (extract_article_content w (ad_link d))
         then extract_article_content w (ad_link d) else None)"
      define sess' where "sess' = sess\<lparr>pending_articles := pending_articles sess @ [a]\<rparr>"
      have step: "stage_articles w db src (d # ds) sess n =
                  stage_articles w db src ds sess' (n + 1)"
        using Inr None by (simp add: Let_def a_def sess'_def)
      have la: "link a = ad_link d" by (simp add: a_def make_article_def)
      have fresh: "ad_link d \<notin> stored_links db sess"
        using Inr None query_first_None by blast
      have st': "stored_links db sess' = insert (link a) (stored_links db sess)"
        by (auto simp: stored_links_def sess'_def)
      from Cons.IH [of sess' "n + 1"] obtain new where new:
        "fst (stage_articles w db src ds sess' (n + 1)) =
            sess'\<lparr>pending_articles := pending_articles sess' @ new\<rparr>"
        "distinct (map link new)" "link ` set new \<inter> stored_links db sess' = {}"
        "link ` set new \<subseteq> ad_link ` set ds"
        "\<forall>k. snd (stage_articles w db src ds sess' (n + 1)) = Inr k \<longrightarrow> k = n + 1 + length new"
        by blast
      show ?thesis
      proof (intro exI [of _ "a # new"] conjI)
        show "fst (stage_articles w db src (d # ds) sess n) =
               sess\<lparr>pending_articles := pending_articles sess @ a # new\<rparr>"
          unfolding step using new(1) by (simp add: sess'_def)
        show "distinct (map link (a # new))"
          using new(2,3) st' by auto
        show "link ` set (a # new) \<inter> stored_links db sess = {}"
          using new(3) st' fresh la by auto
        show "link ` set (a # new) \<subseteq> ad_link ` set (d # ds)"
          using new(4) la by auto
        show "\<forall>k. snd (stage_articles w db src (d # ds) sess n) = Inr k \<longrightarrow>
                  k = n + length (a # new)"
          unfolding step using new(5) by simp
      qed
    qed
  qed
qed

lemma stage_articles_covers:
  assumes "\<forall>l. query_error w (src_id src) l = None"
  shows "(\<exists>k. snd (stage_articles w db src ds sess n) = Inr k)
       \<and> ad_link ` set ds \<subseteq> stored_links db (fst (stage_articles w db src ds sess n))"
proof (induction ds arbitrary: sess n)
  case Nil
  show ?case by simp
next
  case (Cons d ds)
  from assms obtain r where r: "article_query_first w db sess src (ad_link d) = Inr r"
    using query_first_no_error by blast
  show ?case
  proof (cases r)
    case (Some a)
    have "ad_link d \<in> stored_links db sess"
      using r Some query_first_Some by blast
    moreover have "stored_links db sess \<subseteq> stored_links db (fst (stage_articles w db src ds sess n))"
      using stage_articles_shape [of w db src ds sess n] by (auto simp: stored_links_def)
    ultimately show ?thesis using Cons.IH [of sess n] r Some by auto
  next
    case None
    define a where "a = make_article d
      (if truthy (extract_article_content w (ad_link d))
       then extract_article_content w (ad_link d) else None)"
    define sess' where "sess' = sess\<lparr>pending_articles := pending_articles sess @ [a]\<rparr>"
    have step: "stage_articles w db src (d # ds) sess n =
                stage_articles w db src ds sess' (n + 1)"
      using r None by (simp add: Let_def a_def sess'_def)
    have "ad_link d \<in> stored_links db sess'"
      by (simp add: stored_links_def sess'_def a_def make_article_def)
    moreover have "stored_links db sess' \<subseteq> stored_links db (fst (stage_articles w db src ds sess' (n + 1)))"
      using stage_articles_shape [of w db src ds sess' "n + 1"] by (auto simp: stored_links_def)
    ultimately show ?thesis unfolding step using Cons.IH [of sess' "n + 1"] by auto
  qed
qed

lemma stage_articles_all_stored:
  assumes "ad_link ` set ds \<subseteq> stored_links db sess"
  shows "fst (stage_articles w db src ds sess n) = sess
       \<and> (snd (stage_articles w db src ds sess n) = Inr n
          \<or> (\<exists>x. snd (stage_articles w db src ds sess n) = Inl x))"
  using assms
proof (induction ds arbitrary: n)
  case Nil
  show ?case by simp
next
  case (Cons d ds)
  then have d: "ad_link d \<in> stored_links db sess"
    and ds: "ad_link ` set ds \<subseteq> stored_links db sess" by simp_all
  note IH = Cons.IH [OF ds, of n]
  from query_first_stored [OF d, of w src] show ?case
  proof
    assume "\<exists>x. article_query_first w db sess src (ad_link d) = Inl x"
    then show ?thesis by auto
  next
    assume "\<exists>a. article_query_first w db sess src (ad_link d) = Inr (Some a)"
    then obtain a where "article_query_first w db sess src (ad_link d) = Inr (Some a)" ..
    then have "stage_articles w db src (d # ds) sess n = stage_articles w db src ds sess n"
      by simp
    then show ?thesis using IH by simp
  qed
qed


lemma stored_links_append:
  "pending_articles sess' = pending_articles sess @ new \<Longrightarrow>
   stored_links db sess' = stored_links db sess \<union> link ` set new"
  by (auto simp: stored_links_def)

lemma process_source_cases:
  "(\<exists>k. stage_articles w db src (fetch_rss_feed w src) sess 0
           = (fst (stage_articles w db src (fetch_rss_feed w src) sess 0), Inr k)
        \<and> process_source w db sess src =
            Inr ((fst (stage_articles w db src (fetch_rss_feed w src) sess 0))
              \<lparr>pending_logs :=
                 pending_logs (fst (stage_articles w db src (fetch_rss_feed w src) sess 0)) @
                 [\<lparr> log_source_id = src_id src, status = u ''success'',
                    message = success_message (length (fetch_rss_feed w src)) k,
                    articles_count = k \<rparr>]\<rparr>))
   \<or> (\<exists>m. snd (stage_articles w db src (fetch_rss_feed w src) sess 0) = Inl (QueryFailed m)
        \<and> process_source w db sess src =
            Inr ((fst (stage_articles w db src (fetch_rss_feed w src) sess 0))
              \<lparr>pending_logs :=
                 pending_logs (fst (stage_articles w db src (fetch_rss_feed w src) sess 0)) @
                 [\<lparr> log_source_id = src_id src, status = u ''error'',
                    message = error_message m, articles_count = 0 \<rparr>]\<rparr>))
   \<or> (\<exists>m. snd (stage_articles w db src (fetch_rss_feed w src) sess 0) = Inl (FlushFailed m)
        \<and> process_source w db sess src = Inl PendingRollbackError)"
proof -
  obtain s r where sr: "stage_articles w db src (fetch_rss_feed w src) sess 0 = (s, r)"
    by (cases "stage_articles w db src (fetch_rss_feed w src) sess 0")
  show ?thesis
  proof (cases r)
    case (Inr k)
    then show ?thesis using sr by (simp add: process_source_def Let_def)
  next
    case (Inl f)
    then show ?thesis using sr by (cases f) (simp_all add: process_source_def Let_def)
  qed
qed

lemma process_source_shape:
  assumes "process_source w db sess src = Inr sess'"
  shows "\<exists>new lg. pending_articles sess' = pending_articles sess @ new
       \<and> pending_logs sess' = pending_logs sess @ [lg]
       \<and> log_source_id lg = src_id src
       \<and> distinct (map link new)
       \<and> link ` set new \<inter> stored_links db sess = {}
       \<and> link ` set new \<subseteq> ad_link ` set (fetch_rss_feed w src)
       \<and> (status lg = u ''success'' \<and> articles_count lg = length new
          \<or> status lg = u ''error'' \<and> articles_count lg = 0)"
proof -
  define r where "r = stage_articles w db src (fetch_rss_feed w src) sess 0"
  from stage_articles_shape [of w db src "fetch_rss_feed w src" sess 0] obtain new where new:
    "fst r = sess\<lparr>pending_articles := pending_articles sess @ new\<rparr>"
    "distinct (map link new)" "link ` set new \<inter> stored_links db sess = {}"
    "link ` set new \<subseteq> ad_link ` set (fetch_rss_feed w src)"
    "\<forall>k. snd r = Inr k \<longrightarrow> k = 0 + length new"
    unfolding r_def by blast
  from process_source_cases [of w db src sess, folded r_def] assms
  consider k where "r = (fst r, Inr k)"
      "sess' = (fst r)\<lparr>pending_logs := pending_logs (fst r) @
           [\<lparr> log_source_id = src_id src, status = u ''success'',
              message = success_message (length (fetch_rss_feed w src)) k,
              articles_count = k \<rparr>]\<rparr>"
    | m where "sess' = (fst r)\<lparr>pending_logs := pending_logs (fst r) @
           [\<lparr> log_source_id = src_id src, status = u ''error'',
              message = error_message m, articles_count = 0 \<rparr>]\<rparr>"
    by auto
  then show ?thesis
  proof cases
    case 1
    from 1(1) have "snd r = Inr k" by (metis snd_conv)
    with new(5) have "k = length new" by simp
    then show ?thesis using new 1(2)
      by (intro exI [of _ new] exI [of _ "\<lparr> log_source_id = src_id src, status = u ''success'',
              message = success_message (length (fetch_rss_feed w src)) k,
              articles_count = k \<rparr>"]) simp
  next
    case 2
    then show ?thesis using new
      by (intro exI [of _ new] exI [of _ "\<lparr> log_source_id = src_id src, status = u ''error'',
              message = error_message m, articles_count = 0 \<rparr>"]) simp
  qed
qed

lemma run_sources_shape:
  "run_sources w db srcs sess = Inr sess' \<Longrightarrow>
   \<exists>new lgs. pending_articles sess' = pending_articles sess @ new
       \<and> pending_logs sess' = pending_logs sess @ lgs
       \<and> map log_source_id lgs = map src_id srcs
       \<and> distinct (map link new)
       \<and> link ` set new \<inter> stored_links db sess = {}"
proof (induction srcs arbitrary: sess)
  case Nil
  then show ?case by simp
next
  case (Cons s srcs)
  from Cons.prems obtain mid where mid: "process_source w db sess s = Inr mid"
    and rest: "run_sources w db srcs mid = Inr sess'"
    by (cases "process_source w db sess s") simp_all
  from process_source_shape [OF mid] obtain new1 lg where p:
    "pending_articles mid = pending_articles sess @ new1"
    "pending_logs mid = pending_logs sess @ [lg]"
    "log_source_id lg = src_id s" "distinct (map link new1)"
    "link ` set new1 \<inter> stored_links db sess = {}"
    by blast
  from Cons.IH [OF rest] obtain new2 lgs where q:
    "pending_articles sess' = pending_articles mid @ new2"
    "pending_logs sess' = pending_logs mid @ lgs"
    "map log_source_id lgs = map src_id srcs" "distinct (map link new2)"
    "link ` set new2 \<inter> stored_links db mid = {}"
    by blast
  have st: "stored_links db mid = stored_links db sess \<union> link ` set new1"
    using p(1) by (rule stored_links_append)
  show ?case
  proof (intro exI [of _ "new1 @ new2"] exI [of _ "lg # lgs"] conjI)
    show "pending_articles sess' = pending_articles sess @ new1 @ new2"
      by (simp add: q(1) p(1))
    show "pending_logs sess' = pending_logs sess @ lg # lgs"
      by (simp add: q(2) p(2))
    show "map log_source_id (lg # lgs) = map src_id (s # srcs)"
      by (simp add: p(3) q(3))
    show "distinct (map link (new1 @ new2))"
      using p(4) q(4) q(5) st by auto
    show "link ` set (new1 @ new2) \<inter> stored_links db sess = {}"
      using p(5) q(5) st by auto
  qed
qed

lemma pending_empty [simp]:
  "pending_articles empty_session = []" "pending_logs empty_session = []"
  by (simp_all add: empty_session_def)

lemma update_news_tables:
  "update_news w db =
     (case run_sources w db (active_sources db) empty_session of
        Inl x \<Rightarrow> db
      | Inr sess \<Rightarrow>
          if commit_ok w
          then db\<lparr>articles := articles db @ pending_articles sess,
                  update_logs := update_logs db @ pending_logs sess\<rparr>
          else db)"
  by (simp add: update_news_def commit_def rollback_def split: sum.splits)

section \<open>The content of the staged articles\<close>

lemma stage_articles_content:
  "\<forall>a\<in>set (pending_articles sess). content a = staged_content w (link a) \<Longrightarrow>
   \<forall>a\<in>set (pending_articles (fst (stage_articles w db src ds sess n))).
      content a = staged_content w (link a)"
proof (induction ds arbitrary: sess n)
  case Nil
  then show ?case by simp
next
  case (Cons d ds)
  show ?case
  proof (cases "article_query_first w db sess src (ad_link d)")
    case (Inl x)
    then show ?thesis using Cons.prems by simp
  next
    case (Inr r)
    show ?thesis
    proof (cases r)
      case (Some a)
      then show ?thesis using Inr Cons.IH [OF Cons.prems] by simp
    next
      case None
      define a where "a = make_article d (staged_content w (ad_link d))"
      define sess' where "sess' = sess\<lparr>pending_articles := pending_articles sess @ [a]\<rparr>"
      have step: "stage_articles w db src (d # ds) sess n =
                  stage_articles w db src ds sess' (n + 1)"
        using Inr None by (simp add: Let_def a_def sess'_def staged_content_def)
      have "\<forall>a\<in>set (pending_articles sess'). content a = staged_content w (link a)"
        using Cons.prems by (auto simp: sess'_def a_def make_article_def)
      from Cons.IH [OF this] show ?thesis unfolding step .
    qed
  qed
qed

lemma process_source_content:
  assumes "process_source w db sess src = Inr sess'"
    and "\<forall>a\<in>set (pending_articles sess). content a = staged_content w (link a)"
  shows "\<forall>a\<in>set (pending_articles sess'). content a = staged_content w (link a)"
  using process_source_cases [of w db src sess] assms(1)
    stage_articles_content [OF assms(2), of db src "fetch_rss_feed w src" 0]
  by auto

lemma run_sources_content:
  "run_sources w db srcs sess = Inr sess' \<Longrightarrow>
   \<forall>a\<in>set (pending_articles sess). content a = staged_content w (link a) \<Longrightarrow>
   \<forall>a\<in>set (pending_articles sess'). content a = staged_content w (link a)"
proof (induction srcs arbitrary: sess)
  case Nil
  then show ?case by simp
next
  case (Cons s srcs)
  from Cons.prems(1) obtain mid where mid: "process_source w db sess s = Inr mid"
    and rest: "run_sources w db srcs mid = Inr sess'"
    by (cases "process_source w db sess s") simp_all
  from Cons.IH [OF rest process_source_content [OF mid Cons.prems(2)]] show ?case .
qed

lemma staged_content_cases:
  "staged_content w l =
     (case newspaper_text w l of
        None \<Rightarrow> None
      | Some t \<Rightarrow> if t = [] then None else Some (take 5000 t))"
  by (simp add: staged_content_def extract_article_content_take Let_def split: option.splits)

section \<open>The links of a feed, and cycles over stored links\<close>

lemma normalize_entries_links:
  "(\<exists>x. normalize_entries w src es = Inl x \<and> (\<exists>e\<in>set es. e_link e = None))
   \<or> (\<exists>as. normalize_entries w src es = Inr as \<and> map (Some \<circ> ad_link) as = map e_link es)"
proof (induction es)
  case Nil
  show ?case by simp
next
  case (Cons e es)
  show ?case
  proof (cases "e_link e")
    case None
    then show ?thesis by (simp add: normalize_entry_def Let_def)
  next
    case (Some l)
    then obtain a where a: "normalize_entry w src e = Inr a" "ad_link a = l"
      by (simp add: normalize_entry_def Let_def)
    from Cons.IH show ?thesis
    proof
      assume "\<exists>x. normalize_entries w src es = Inl x \<and> (\<exists>e\<in>set es. e_link e = None)"
      then show ?thesis using a by auto
    next
      assume "\<exists>as. normalize_entries w src es = Inr as \<and> map (Some \<circ> ad_link) as = map e_link es"
      then obtain as where "normalize_entries w src es = Inr as"
        "map (Some \<circ> ad_link) as = map e_link es" by blast
      then have "normalize_entries w src (e # es) = Inr (a # as)
                 \<and> map (Some \<circ> ad_link) (a # as) = map e_link (e # es)"
        using a Some by simp
      then show ?thesis by blast
    qed
  qed
qed

lemma map_Some_inj:
  assumes "map (Some \<circ> f) xs = map (Some \<circ> f) ys"
  shows "map f xs = map f ys"
proof -
  from assms have "map the (map (Some \<circ> f) xs) = map the (map (Some \<circ> f) ys)"
    by (simp only:)
  then show ?thesis by (simp add: comp_def)
qed

lemma normalize_entries_same_links:
  "map ad_link (case normalize_entries w' src es of Inl _ \<Rightarrow> [] | Inr as \<Rightarrow> as)
   = map ad_link (case normalize_entries w src es of Inl _ \<Rightarrow> [] | Inr as \<Rightarrow> as)"
proof -
  have none: "\<And>v as. normalize_entries v src es = Inr as \<Longrightarrow> \<forall>e\<in>set es. e_link e \<noteq> None"
  proof -
    fix v :: world and as assume r: "normalize_entries v src es = Inr as"
    with normalize_entries_links [of v src es]
    have "map (Some \<circ> ad_link) as = map e_link es" by auto
    then have "set (map e_link es) = set (map (Some \<circ> ad_link) as)" by simp
    then show "\<forall>e\<in>set es. e_link e \<noteq> None" by force
  qed
  show ?thesis
  proof (cases "normalize_entries w src es")
    case (Inl x)
    with normalize_entries_links [of w src es] have "\<exists>e\<in>set es. e_link e = None" by auto
    with none [of w'] have "\<exists>y. normalize_entries w' src es = Inl y"
      by (cases "normalize_entries w' src es") auto
    then show ?thesis using Inl by auto
  next
    case (Inr as)
    from none [OF Inr] normalize_entries_links [of w' src es]
    obtain as' where as': "normalize_entries w' src es = Inr as'"
      "map (Some \<circ> ad_link) as' = map e_link es" by auto
    from Inr normalize_entries_links [of w src es]
    have "map (Some \<circ> ad_link) as = map e_link es" by auto
    with as' map_Some_inj [of ad_link as' as] show ?thesis using Inr by simp
  qed
qed

lemma fetch_links_unchanged:
  assumes "feedparser_parse w' = feedparser_parse w"
    and "getenv_max_articles w' = getenv_max_articles w"
  shows "map ad_link (fetch_rss_feed w' src) = map ad_link (fetch_rss_feed w src)"
proof (cases "feedparser_parse w (src_rss_url src)")
  case None
  then show ?thesis using assms by (simp add: fetch_rss_feed_def)
next
  case (Some es)
  show ?thesis
  proof (cases "getenv_max_articles w")
    case Malformed
    then show ?thesis using assms Some by (simp add: fetch_rss_feed_def)
  next
    case Unset
    then show ?thesis using assms Some
      normalize_entries_same_links [of w' src "slice_to 50 es" w]
      by (simp add: fetch_rss_feed_def)
  next
    case (IntValue k)
    then show ?thesis using assms Some
      normalize_entries_same_links [of w' src "slice_to k es" w]
      by (simp add: fetch_rss_feed_def)
  qed
qed

lemma process_source_articles:
  assumes "process_source w db sess src = Inr sess'"
  shows "pending_articles sess' =
         pending_articles (fst (stage_articles w db src (fetch_rss_feed w src) sess 0))"
  using process_source_cases [of w db src sess] assms by auto

lemma stored_links_cong:
  "pending_articles sess' = pending_articles sess \<Longrightarrow> stored_links db sess' = stored_links db sess"
  by (simp add: stored_links_def)

lemma process_source_covers:
  assumes "\<forall>l. query_error w (src_id src) l = None"
  shows "\<exists>sess'. process_source w db sess src = Inr sess'
           \<and> ad_link ` set (fetch_rss_feed w src) \<subseteq> stored_links db sess'"
proof -
  from stage_articles_covers [OF assms, of db "fetch_rss_feed w src" sess 0]
  obtain k where k: "snd (stage_articles w db src (fetch_rss_feed w src) sess 0) = Inr k"
    and c: "ad_link ` set (fetch_rss_feed w src)
             \<subseteq> stored_links db (fst (stage_articles w db src (fetch_rss_feed w src) sess 0))"
    by blast
  from process_source_cases [of w db src sess] k
  obtain sess' where s: "process_source w db sess src = Inr sess'" by auto
  from stored_links_cong [OF process_source_articles [OF s], of db] c s show ?thesis by simp
qed

lemma run_sources_mono:
  "run_sources w db srcs sess = Inr sess' \<Longrightarrow> stored_links db sess \<subseteq> stored_links db sess'"
  using run_sources_shape [of w db srcs sess sess'] by (auto simp: stored_links_def)

lemma run_sources_covers:
  assumes "\<forall>s l. query_error w s l = None"
  shows "\<exists>sess'. run_sources w db srcs sess = Inr sess'
           \<and> (\<forall>src\<in>set srcs. ad_link ` set (fetch_rss_feed w src) \<subseteq> stored_links db sess')"
proof (induction srcs arbitrary: sess)
  case Nil
  show ?case by simp
next
  case (Cons s srcs)
  from assms have "\<forall>l. query_error w (src_id s) l = None" by simp
  from process_source_covers [OF this, of db sess] obtain mid where
    mid: "process_source w db sess s = Inr mid"
    and c: "ad_link ` set (fetch_rss_feed w s) \<subseteq> stored_links db mid"
    by blast
  from Cons.IH [of mid] obtain sess' where
    r: "run_sources w db srcs mid = Inr sess'"
    and cs: "\<forall>src\<in>set srcs. ad_link ` set (fetch_rss_feed w src) \<subseteq> stored_links db sess'"
    by blast
  from run_sources_mono [OF r] c
  have "ad_link ` set (fetch_rss_feed w s) \<subseteq> stored_links db sess'" by blast
  with cs r mid show ?case by simp
qed

lemma process_source_all_stored:
  assumes "ad_link ` set (fetch_rss_feed w src) \<subseteq> stored_links db sess"
    and "process_source w db sess src = Inr sess'"
  shows "pending_articles sess' = pending_articles sess
       \<and> (\<exists>lg. pending_logs sess' = pending_logs sess @ [lg] \<and> articles_count lg = 0)"
proof -
  define r where "r = stage_articles w db src (fetch_rss_feed w src) sess 0"
  from stage_articles_all_stored [OF assms(1), of w src 0]
  have f: "fst r = sess" and s: "snd r = Inr 0 \<or> (\<exists>x. snd r = Inl x)"
    by (simp_all add: r_def)
  from process_source_cases [of w db src sess, folded r_def] assms(2)
  consider k where "r = (fst r, Inr k)"
      "sess' = (fst r)\<lparr>pending_logs := pending_logs (fst r) @
           [\<lparr> log_source_id = src_id src, status = u ''success'',
              message = success_message (length (fetch_rss_feed w src)) k,
              articles_count = k \<rparr>]\<rparr>"
    | m where "sess' = (fst r)\<lparr>pending_logs := pending_logs (fst r) @
           [\<lparr> log_source_id = src_id src, status = u ''error'',
              message = error_message m, articles_count = 0 \<rparr>]\<rparr>"
    by auto
  then show ?thesis
  proof cases
    case 1
    from 1(1) have "snd r = Inr k" by (metis snd_conv)
    with s have "k = 0" by auto
    then show ?thesis using 1(2) f by simp
  next
    case 2
    then show ?thesis using f by simp
  qed
qed

lemma run_sources_all_stored:
  "\<forall>src\<in>set srcs. ad_link ` set (fetch_rss_feed w src) \<subseteq> stored_links db sess \<Longrightarrow>
   run_sources w db srcs sess = Inr sess' \<Longrightarrow>
   pending_articles sess' = pending_articles sess
   \<and> (\<exists>lgs. pending_logs sess' = pending_logs sess @ lgs
            \<and> (\<forall>lg\<in>set lgs. articles_count lg = 0))"
proof (induction srcs arbitrary: sess)
  case Nil
  then show ?case by simp
next
  case (Cons s srcs)
  from Cons.prems(2) obtain mid where mid: "process_source w db sess s = Inr mid"
    and rest: "run_sources w db srcs mid = Inr sess'"
    by (cases "process_source w db sess s") simp_all
  from Cons.prems(1) have "ad_link ` set (fetch_rss_feed w s) \<subseteq> stored_links db sess" by simp
  from process_source_all_stored [OF this mid] obtain lg where p:
    "pending_articles mid = pending_articles sess"
    "pending_logs mid = pending_logs sess @ [lg]" "articles_count lg = 0"
    by blast
  have "stored_links db mid = stored_links db sess"
    using p(1) by (rule stored_links_cong)
  with Cons.prems(1)
  have "\<forall>src\<in>set srcs. ad_link ` set (fetch_rss_feed w src) \<subseteq> stored_links db mid"
    by simp
  from Cons.IH [OF this rest] obtain lgs where q:
    "pending_articles sess' = pending_articles mid"
    "pending_logs sess' = pending_logs mid @ lgs"
    "\<forall>lg\<in>set lgs. articles_count lg = 0" by blast
  have "pending_logs sess' = pending_logs sess @ (lg # lgs)"
    using p(2) q(2) by simp
  moreover have "\<forall>l\<in>set (lg # lgs). articles_count l = 0" using p(3) q(3) by simp
  moreover have "pending_articles sess' = pending_articles sess"
    using p(1) q(1) by simp
  ultimately show ?case by blast
qed

lemma count_one_of_distinct:
  "distinct (map f xs) \<Longrightarrow> l \<in> f ` set xs \<Longrightarrow> length (filter (\<lambda>a. f a = l) xs) = 1"
proof (induction xs)
  case Nil
  then show ?case by simp
next
  case (Cons x xs)
  show ?case
  proof (cases "f x = l")
    case True
    with Cons.prems have "l \<notin> f ` set xs" by auto
    then have "filter (\<lambda>a. f a = l) xs = []" by (auto simp: filter_empty_conv)
    with True show ?thesis by simp
  next
    case False
    with Cons show ?thesis by auto
  qed
qed

section \<open>A feed with an entry that has no link\<close>

lemma normalize_entries_missing_link:
  assumes "e \<in> set es" and "e_link e = None"
  shows "\<exists>x. normalize_entries w src es = Inl x"
proof (cases "normalize_entries w src es")
  case (Inl x)
  then show ?thesis by blast
next
  case (Inr as)
  with normalize_entries_links [of w src es]
  have "map (Some \<circ> ad_link) as = map e_link es" by auto
  then have "set (map e_link es) = set (map (Some \<circ> ad_link) as)" by simp
  then have "\<forall>e\<in>set es. e_link e \<noteq> None" by force
  with assms show ?thesis by blast
qed

lemma process_source_empty_feed:
  assumes "fetch_rss_feed w src = []"
  shows "process_source w db sess src =
     Inr (sess\<lparr>pending_logs := pending_logs sess @
        [\<lparr> log_source_id = src_id src, status = u ''success'',
           message = success_message 0 0, articles_count = 0 \<rparr>]\<rparr>)"
  using assms by (simp add: process_source_def)

section \<open>The example cycle, evaluated\<close>

lemma ex_mk_datetime: "mk_datetime (2024, 3, 1, 12, 30, 15) = Some 63844893015000000"
  by (simp add: mk_datetime_def days_in_month_def days_before_year_def days_before_month_def
        is_leap_def microseconds_per_day_def)

lemma ex_image_a:
  "entry_image_url ex_world ex_source ex_entry_a = Some (u ''https://cdn.example.com/a.jpg'')"
  by (simp add: entry_image_url_def structured_image_def ex_entry_a_def is_image_media_def
        ex_media_video_def ex_media_image_def
        checked_image_url_def fix_image_url_def startswith_def u_def)

lemma ex_image_b:
  "entry_image_url ex_world ex_source ex_entry_b =
     Some (u ''https://news.example.com/img/a.jpg'')"
  by (simp add: entry_image_url_def structured_image_def ex_entry_b_def scan_markup_def
        content_to_search_def usable_src_def ex_world_def ex_source_def
        checked_image_url_def fix_image_url_def startswith_def u_def)

lemma ex_normalize_a: "normalize_entry ex_world ex_source ex_entry_a = Inr ex_data_a"
  by (simp add: normalize_entry_def ex_image_a Let_def)
     (simp add: ex_entry_a_def ex_world_def ex_source_def entry_published_at_def ex_mk_datetime
        entry_description_def raw_description_def entry_title_def entry_guid_def u_def
        ex_data_a_def)

lemma ex_normalize_b: "normalize_entry ex_world ex_source ex_entry_b = Inr ex_data_b"
  by (simp add: normalize_entry_def ex_image_b Let_def)
     (simp add: ex_entry_b_def ex_world_def ex_source_def entry_published_at_def
        entry_description_def raw_description_def entry_title_def entry_guid_def u_def
        ex_data_b_def)

lemma ex_parse: "feedparser_parse ex_world (src_rss_url ex_source) = Some [ex_entry_a, ex_entry_b]"
  by (simp add: ex_world_def ex_source_def)

lemma ex_parse_down: "feedparser_parse ex_world (src_rss_url ex_source_down) = None"
  by (simp add: ex_world_def ex_source_down_def u_def)

lemma ex_fetch: "fetch_rss_feed ex_world ex_source = [ex_data_a, ex_data_b]"
proof -
  have "getenv_max_articles ex_world = Unset" by (simp add: ex_world_def)
  then show ?thesis
    by (simp add: fetch_rss_feed_def ex_parse slice_to_def ex_normalize_a ex_normalize_b)
qed

lemma ex_fetch_down: "fetch_rss_feed ex_world ex_source_down = []"
  by (simp add: fetch_rss_feed_def ex_parse_down)

lemma ex_links: "ad_link ex_data_a = u ''a''" "ad_link ex_data_b = u ''b''"
  by (simp_all add: ex_data_a_def ex_data_b_def)

lemma ex_query_a:
  "article_query_first ex_world ex_db empty_session ex_source (ad_link ex_data_a) = Inr None"
  by (simp add: article_query_first_def ex_world_def ex_db_def)

lemma ex_text: "newspaper_text ex_world (ad_link ex_data_a) = Some (u ''body'')"
  "newspaper_text ex_world (ad_link ex_data_b) = None"
  by (simp_all add: ex_world_def ex_links u_def)

lemma ex_stage:
  "stage_articles ex_world ex_db ex_source [ex_data_a, ex_data_b] empty_session 0 =
     (\<lparr> pending_articles = [ex_article_a, ex_article_b], pending_logs = [] \<rparr>, Inr 2)"
  by (simp add: article_query_first_def Let_def extract_article_content_def make_article_def
        empty_session_def ex_world_def ex_db_def ex_source_def ex_data_a_def ex_data_b_def
        ex_article_a_def ex_article_b_def u_def)

lemma ex_process_one:
  "process_source ex_world ex_db empty_session ex_source =
     Inr \<lparr> pending_articles = [ex_article_a, ex_article_b],
           pending_logs = [\<lparr> log_source_id = 1, status = u ''success'',
                             message = success_message 2 2, articles_count = 2 \<rparr>] \<rparr>"
  unfolding process_source_def ex_fetch Let_def ex_stage
  by (simp add: ex_source_def numeral_2_eq_2)

lemma ex_process_down:
  "process_source ex_world ex_db sess ex_source_down =
     Inr (sess\<lparr>pending_logs := pending_logs sess @
        [\<lparr> log_source_id = 3, status = u ''success'',
           message = success_message 0 0, articles_count = 0 \<rparr>]\<rparr>)"
  using process_source_empty_feed [OF ex_fetch_down] by (simp add: ex_source_down_def)

lemma ex_active: "active_sources ex_db = [ex_source, ex_source_down]"
  by (simp add: active_sources_def ex_db_def ex_source_def ex_source_inactive_def
        ex_source_down_def)

lemma ex_run:
  "run_sources ex_world ex_db (active_sources ex_db) empty_session =
     Inr \<lparr> pending_articles = [ex_article_a, ex_article_b],
           pending_logs = [\<lparr> log_source_id = 1, status = u ''success'',
                             message = success_message 2 2, articles_count = 2 \<rparr>,
                           \<lparr> log_source_id = 3, status = u ''success'',
                             message = success_message 0 0, articles_count = 0 \<rparr>] \<rparr>"
  by (simp add: ex_active ex_process_one ex_process_down)

lemma ex_commit: "commit_ok ex_world"
  by (simp add: ex_world_def)

text \<open>The worlds with a failing lookup: the feed is the same, the second lookup raises.\<close>

lemma entry_image_url_query_error:
  "entry_image_url (w\<lparr>query_error := q\<rparr>) src e = entry_image_url w src e"
  by (simp add: entry_image_url_def scan_markup_def checked_image_url_def fix_image_url_def
           cong: sum.case_cong option.case_cong if_cong)

lemma normalize_entry_query_error:
  "normalize_entry (w\<lparr>query_error := q\<rparr>) src e = normalize_entry w src e"
  by (simp add: normalize_entry_def entry_published_at_def entry_description_def
        entry_image_url_query_error Let_def
           cong: sum.case_cong option.case_cong if_cong)

lemma normalize_entries_query_error:
  "normalize_entries (w\<lparr>query_error := q\<rparr>) src es = normalize_entries w src es"
  by (induction es) (simp_all add: normalize_entry_query_error cong: sum.case_cong)

lemma fetch_query_error:
  "fetch_rss_feed (w\<lparr>query_error := q\<rparr>) src = fetch_rss_feed w src"
  by (simp add: fetch_rss_feed_def normalize_entries_query_error
           cong: sum.case_cong option.case_cong)

lemma ex_stage_query_fails:
  "stage_articles ex_world_query_fails ex_db ex_source [ex_data_a, ex_data_b] empty_session 0 =
     (\<lparr> pending_articles = [ex_article_a], pending_logs = [] \<rparr>,
      Inl (QueryFailed (u ''timeout'')))"
  by (simp add: article_query_first_def Let_def extract_article_content_def make_article_def
        empty_session_def ex_world_query_fails_def ex_world_def ex_db_def ex_source_def
        ex_data_a_def ex_data_b_def ex_article_a_def u_def)

lemma ex_stage_flush_fails:
  "stage_articles ex_world_flush_fails ex_db ex_source [ex_data_a, ex_data_b] empty_session 0 =
     (\<lparr> pending_articles = [ex_article_a], pending_logs = [] \<rparr>,
      Inl (FlushFailed (u ''too long'')))"
  by (simp add: article_query_first_def Let_def extract_article_content_def make_article_def
        empty_session_def ex_world_flush_fails_def ex_world_def ex_db_def ex_source_def
        ex_data_a_def ex_data_b_def ex_article_a_def u_def)

lemma ex_run_query_fails:
  "run_sources ex_world_query_fails ex_db (active_sources ex_db) empty_session =
     Inr \<lparr> pending_articles = [ex_article_a],
           pending_logs = [\<lparr> log_source_id = 1, status = u ''error'',
                             message = error_message (u ''timeout''), articles_count = 0 \<rparr>,
                           \<lparr> log_source_id = 3, status = u ''success'',
                             message = success_message 0 0, articles_count = 0 \<rparr>] \<rparr>"
proof -
  have f1: "fetch_rss_feed ex_world_query_fails ex_source = [ex_data_a, ex_data_b]"
    by (simp add: ex_world_query_fails_def fetch_query_error ex_fetch)
  have f3: "fetch_rss_feed ex_world_query_fails ex_source_down = []"
    by (simp add: ex_world_query_fails_def fetch_query_error ex_fetch_down)
  have p1: "process_source ex_world_query_fails ex_db empty_session ex_source =
     Inr \<lparr> pending_articles = [ex_article_a],
           pending_logs = [\<lparr> log_source_id = 1, status = u ''error'',
                             message = error_message (u ''timeout''), articles_count = 0 \<rparr>] \<rparr>"
    unfolding process_source_def f1 Let_def ex_stage_query_fails
    by (simp add: ex_source_def)
  show ?thesis
    using process_source_empty_feed [OF f3]
    by (simp add: ex_active p1) (simp add: ex_source_down_def)
qed

lemma ex_process_flush_fails:
  "process_source ex_world_flush_fails ex_db empty_session ex_source = Inl PendingRollbackError"
proof -
  have f1: "fetch_rss_feed ex_world_flush_fails ex_source = [ex_data_a, ex_data_b]"
    by (simp add: ex_world_flush_fails_def fetch_query_error ex_fetch)
  show ?thesis
    unfolding process_source_def f1 Let_def ex_stage_flush_fails by simp
qed

lemma ex_run_flush_fails:
  "run_sources ex_world_flush_fails ex_db (active_sources ex_db) empty_session
     = Inl PendingRollbackError"
  by (simp add: ex_active ex_process_flush_fails)

lemma ex_query_b:
  "article_query_first ex_world ex_db empty_session ex_source (ad_link ex_data_b) = Inr None"
  by (simp add: article_query_first_def ex_world_def ex_db_def)

lemma ex_mk_datetime_invalid: "mk_datetime (2024, 2, 30, 0, 0, 0) = None"
  by (simp add: mk_datetime_def days_in_month_def is_leap_def)

lemma ex_image_long: "entry_image_url ex_world ex_source ex_entry_long = None"
  by (simp add: entry_image_url_def structured_image_def ex_entry_long_def scan_markup_def
        content_to_search_def checked_image_url_def fix_image_url_def)

lemma ex_normalize_long:
  "normalize_entry ex_world ex_source ex_entry_long =
     Inr \<lparr> ad_title = replicate 500 116, ad_description = replicate 1000 100 @ u ''...'',
           ad_link = u ''c'', ad_published_at = 63845000000000000, ad_guid = u ''c'',
           ad_source_id = 1, ad_category_id = 7, ad_image_url = None \<rparr>"
  by (simp add: normalize_entry_def ex_image_long Let_def)
     (simp add: ex_entry_long_def ex_world_def ex_source_def entry_published_at_def
        ex_mk_datetime_invalid entry_description_def raw_description_def entry_title_def
        entry_guid_def)

section \<open>Properties of the read side\<close>

lemma paginate_items_subset: "set (pg_items (paginate rows p n)) \<subseteq> set rows"
  by (auto simp: paginate_def Let_def dest: in_set_takeD in_set_dropD)

lemma filter_source_subset: "set (filter_source s rows) \<subseteq> set rows"
  by (auto simp: filter_source_def split: option.splits)

lemma order_by_published_desc_set [simp]: "set (order_by_published_desc rows) = set rows"
  by (simp add: order_by_published_desc_def)

lemma seven_days_ago_value: "seven_days_ago w = utcnow w - 604800000000"
  by (simp add: seven_days_ago_def timedelta_days_def microseconds_per_day_def)

lemma in_listing:
  assumes "a \<in> set (pg_items (paginate (order_by_published_desc (filter_source s rows)) p n))"
  shows "a \<in> set rows"
proof -
  from assms paginate_items_subset
  have "a \<in> set (order_by_published_desc (filter_source s rows))" by blast
  with filter_source_subset show ?thesis by fastforce
qed

lemma in_listing_plain:
  assumes "a \<in> set (pg_items (paginate (order_by_published_desc rows) p n))"
  shows "a \<in> set rows"
  using assms paginate_items_subset by fastforce

lemma filter_source_None [simp]: "filter_source None rows = rows"
  by (simp add: filter_source_def)

section \<open>The outcome of the commit does not change what a cycle stages\<close>

lemma entry_image_url_commit_ok:
  "entry_image_url (w\<lparr>commit_ok := b\<rparr>) src e = entry_image_url w src e"
  by (simp add: entry_image_url_def scan_markup_def checked_image_url_def fix_image_url_def
           cong: sum.case_cong option.case_cong if_cong)

lemma normalize_entry_commit_ok:
  "normalize_entry (w\<lparr>commit_ok := b\<rparr>) src e = normalize_entry w src e"
  by (simp add: normalize_entry_def entry_published_at_def entry_description_def
        entry_image_url_commit_ok Let_def
           cong: sum.case_cong option.case_cong if_cong)

lemma normalize_entries_commit_ok:
  "normalize_entries (w\<lparr>commit_ok := b\<rparr>) src es = normalize_entries w src es"
  by (induction es) (simp_all add: normalize_entry_commit_ok cong: sum.case_cong)

lemma fetch_commit_ok:
  "fetch_rss_feed (w\<lparr>commit_ok := b\<rparr>) src = fetch_rss_feed w src"
  by (simp add: fetch_rss_feed_def normalize_entries_commit_ok
           cong: sum.case_cong option.case_cong)

lemma stage_articles_commit_ok:
  "stage_articles (w\<lparr>commit_ok := b\<rparr>) db src ds sess n = stage_articles w db src ds sess n"
proof (induction ds arbitrary: sess n)
  case Nil
  show ?case by simp
next
  case (Cons d ds)
  have q: "article_query_first (w\<lparr>commit_ok := b\<rparr>) db sess src (ad_link d)
             = article_query_first w db sess src (ad_link d)"
    by (simp add: article_query_first_def)
  have x: "extract_article_content (w\<lparr>commit_ok := b\<rparr>) (ad_link d)
             = extract_article_content w (ad_link d)"
    by (simp add: extract_article_content_def)
  show ?case
    by (simp add: q x Cons.IH Let_def cong: sum.case_cong option.case_cong)
qed

lemma process_source_commit_ok:
  "process_source (w\<lparr>commit_ok := b\<rparr>) db sess src = process_source w db sess src"
  by (simp add: process_source_def fetch_commit_ok stage_articles_commit_ok)

lemma run_sources_commit_ok:
  "run_sources (w\<lparr>commit_ok := b\<rparr>) db srcs sess = run_sources w db srcs sess"
  by (induction srcs arbitrary: sess)
     (simp_all add: process_source_commit_ok cong: sum.case_cong)

lemma ex_run_commit_fails:
  "run_sources ex_world_commit_fails ex_db (active_sources ex_db) empty_session =
     run_sources ex_world ex_db (active_sources ex_db) empty_session"
  by (simp add: ex_world_commit_fails_def run_sources_commit_ok)

section \<open>What the text extraction cannot change\<close>

lemma entry_image_url_newspaper_text:
  "entry_image_url (w\<lparr>newspaper_text := nt\<rparr>) src e = entry_image_url w src e"
  by (simp add: entry_image_url_def scan_markup_def checked_image_url_def fix_image_url_def
           cong: sum.case_cong option.case_cong if_cong)

lemma normalize_entry_newspaper_text:
  "normalize_entry (w\<lparr>newspaper_text := nt\<rparr>) src e = normalize_entry w src e"
  by (simp add: normalize_entry_def entry_published_at_def entry_description_def
        entry_image_url_newspaper_text Let_def
           cong: sum.case_cong option.case_cong if_cong)

lemma normalize_entries_newspaper_text:
  "normalize_entries (w\<lparr>newspaper_text := nt\<rparr>) src es = normalize_entries w src es"
  by (induction es) (simp_all add: normalize_entry_newspaper_text cong: sum.case_cong)

lemma fetch_newspaper_text:
  "fetch_rss_feed (w\<lparr>newspaper_text := nt\<rparr>) src = fetch_rss_feed w src"
  by (simp add: fetch_rss_feed_def normalize_entries_newspaper_text
           cong: sum.case_cong option.case_cong)

lemma link_without_content [simp]: "link (without_content a) = link a"
  by (simp add: without_content_def)

lemma without_content_make_article [simp]:
  "without_content (make_article d c) = make_article d None"
  by (simp add: without_content_def make_article_def)

lemma links_without_content:
  assumes "map without_content p1 = map without_content p2"
  shows "link ` set p1 = link ` set p2"
proof -
  have "link ` set p = link ` set (map without_content p)" for p
    by (simp add: image_image)
  then show ?thesis using assms by metis
qed

lemma query_first_newspaper_text:
  assumes "map without_content (pending_articles s1) = map without_content (pending_articles s2)"
    and "pending_logs s1 = pending_logs s2"
  shows "(\<exists>x. article_query_first (w\<lparr>newspaper_text := nt\<rparr>) db s1 src l = Inl x
            \<and> article_query_first w db s2 src l = Inl x)
       \<or> (article_query_first (w\<lparr>newspaper_text := nt\<rparr>) db s1 src l = Inr None
            \<and> article_query_first w db s2 src l = Inr None)
       \<or> (\<exists>a1 a2. article_query_first (w\<lparr>newspaper_text := nt\<rparr>) db s1 src l = Inr (Some a1)
            \<and> article_query_first w db s2 src l = Inr (Some a2))"
proof -
  from assms(1) have e: "pending_articles s1 = [] \<longleftrightarrow> pending_articles s2 = []"
    by (metis map_is_Nil_conv)
  from links_without_content [OF assms(1)]
  have "link ` set (articles db @ pending_articles s1)
          = link ` set (articles db @ pending_articles s2)"
    by (simp add: image_Un)
  then have f: "find (\<lambda>a. link a = l) (articles db @ pending_articles s1) = None
         \<longleftrightarrow> find (\<lambda>a. link a = l) (articles db @ pending_articles s2) = None"
    by (simp only: find_link_None)
  show ?thesis
  proof (cases "find (\<lambda>a. link a = l) (articles db @ pending_articles s1)")
    case None
    with f have "find (\<lambda>a. link a = l) (articles db @ pending_articles s2) = None" by simp
    with None e assms(2) show ?thesis
      by (auto simp: article_query_first_def split: option.splits lookup_failure.splits)
  next
    case (Some a1)
    with f obtain a2 where
      "find (\<lambda>a. link a = l) (articles db @ pending_articles s2) = Some a2" by auto
    with Some e assms(2) show ?thesis
      by (auto simp: article_query_first_def split: option.splits lookup_failure.splits)
  qed
qed

lemma stage_articles_newspaper_text:
  "map without_content (pending_articles s1) = map without_content (pending_articles s2) \<Longrightarrow>
   pending_logs s1 = pending_logs s2 \<Longrightarrow>
   map without_content
       (pending_articles (fst (stage_articles (w\<lparr>newspaper_text := nt\<rparr>) db src ds s1 n)))
     = map without_content (pending_articles (fst (stage_articles w db src ds s2 n)))
   \<and> pending_logs (fst (stage_articles (w\<lparr>newspaper_text := nt\<rparr>) db src ds s1 n))
     = pending_logs (fst (stage_articles w db src ds s2 n))
   \<and> snd (stage_articles (w\<lparr>newspaper_text := nt\<rparr>) db src ds s1 n)
     = snd (stage_articles w db src ds s2 n)"
proof (induction ds arbitrary: s1 s2 n)
  case Nil
  then show ?case by simp
next
  case (Cons d ds)
  from query_first_newspaper_text
    [OF Cons.prems, where w = w and nt = nt and db = db and src = src and l = "ad_link d"]
  consider
    (err) x where "article_query_first (w\<lparr>newspaper_text := nt\<rparr>) db s1 src (ad_link d) = Inl x"
      "article_query_first w db s2 src (ad_link d) = Inl x"
  | (new) "article_query_first (w\<lparr>newspaper_text := nt\<rparr>) db s1 src (ad_link d) = Inr None"
      "article_query_first w db s2 src (ad_link d) = Inr None"
  | (old) a1 a2 where
      "article_query_first (w\<lparr>newspaper_text := nt\<rparr>) db s1 src (ad_link d) = Inr (Some a1)"
      "article_query_first w db s2 src (ad_link d) = Inr (Some a2)"
    by blast
  then show ?case
  proof cases
    case err
    then show ?thesis using Cons.prems by simp
  next
    case old
    then show ?thesis using Cons.IH [OF Cons.prems] by simp
  next
    case new
    define c1 where "c1 = staged_content (w\<lparr>newspaper_text := nt\<rparr>) (ad_link d)"
    define c2 where "c2 = staged_content w (ad_link d)"
    define t1 where "t1 = s1\<lparr>pending_articles := pending_articles s1 @ [make_article d c1]\<rparr>"
    define t2 where "t2 = s2\<lparr>pending_articles := pending_articles s2 @ [make_article d c2]\<rparr>"
    have step1: "stage_articles (w\<lparr>newspaper_text := nt\<rparr>) db src (d # ds) s1 n
                   = stage_articles (w\<lparr>newspaper_text := nt\<rparr>) db src ds t1 (n + 1)"
      using new(1) by (simp add: Let_def t1_def c1_def staged_content_def)
    have step2: "stage_articles w db src (d # ds) s2 n = stage_articles w db src ds t2 (n + 1)"
      using new(2) by (simp add: Let_def t2_def c2_def staged_content_def)
    have r: "map without_content (pending_articles t1) = map without_content (pending_articles t2)"
      "pending_logs t1 = pending_logs t2"
      using Cons.prems by (simp_all add: t1_def t2_def)
    from Cons.IH [OF r] show ?thesis unfolding step1 step2 .
  qed
qed

lemma process_source_newspaper_text:
  assumes "map without_content (pending_articles s1) = map without_content (pending_articles s2)"
    and "pending_logs s1 = pending_logs s2"
  shows "(\<exists>x. process_source (w\<lparr>newspaper_text := nt\<rparr>) db s1 src = Inl x
            \<and> process_source w db s2 src = Inl x)
       \<or> (\<exists>t1 t2. process_source (w\<lparr>newspaper_text := nt\<rparr>) db s1 src = Inr t1
            \<and> process_source w db s2 src = Inr t2
            \<and> map without_content (pending_articles t1) = map without_content (pending_articles t2)
            \<and> pending_logs t1 = pending_logs t2)"
proof -
  obtain a1 r1 where st1: "stage_articles (w\<lparr>newspaper_text := nt\<rparr>) db src
                             (fetch_rss_feed w src) s1 0 = (a1, r1)"
    by (cases "stage_articles (w\<lparr>newspaper_text := nt\<rparr>) db src (fetch_rss_feed w src) s1 0")
  obtain a2 r2 where st2: "stage_articles w db src (fetch_rss_feed w src) s2 0 = (a2, r2)"
    by (cases "stage_articles w db src (fetch_rss_feed w src) s2 0")
  from stage_articles_newspaper_text
    [OF assms, where w = w and nt = nt and db = db and src = src
       and ds = "fetch_rss_feed w src" and n = 0]
  have rel: "map without_content (pending_articles a1) = map without_content (pending_articles a2)"
    "pending_logs a1 = pending_logs a2" "r1 = r2"
    by (simp_all add: st1 st2)
  show ?thesis
  proof (cases r2)
    case (Inr k)
    then show ?thesis
      using rel by (simp add: process_source_def fetch_newspaper_text st1 st2)
  next
    case (Inl f)
    then show ?thesis
      using rel by (cases f) (simp_all add: process_source_def fetch_newspaper_text st1 st2)
  qed
qed

lemma run_sources_newspaper_text:
  "map without_content (pending_articles s1) = map without_content (pending_articles s2) \<Longrightarrow>
   pending_logs s1 = pending_logs s2 \<Longrightarrow>
   (\<exists>x. run_sources (w\<lparr>newspaper_text := nt\<rparr>) db srcs s1 = Inl x
       \<and> run_sources w db srcs s2 = Inl x)
   \<or> (\<exists>t1 t2. run_sources (w\<lparr>newspaper_text := nt\<rparr>) db srcs s1 = Inr t1
       \<and> run_sources w db srcs s2 = Inr t2
       \<and> map without_content (pending_articles t1) = map without_content (pending_articles t2)
       \<and> pending_logs t1 = pending_logs t2)"
proof (induction srcs arbitrary: s1 s2)
  case Nil
  then show ?case by simp
next
  case (Cons s srcs)
  from process_source_newspaper_text
    [OF Cons.prems, where w = w and nt = nt and db = db and src = s]
  show ?case
  proof
    assume "\<exists>x. process_source (w\<lparr>newspaper_text := nt\<rparr>) db s1 s = Inl x
              \<and> process_source w db s2 s = Inl x"
    then show ?thesis by auto
  next
    assume "\<exists>t1 t2. process_source (w\<lparr>newspaper_text := nt\<rparr>) db s1 s = Inr t1
            \<and> process_source w db s2 s = Inr t2
            \<and> map without_content (pending_articles t1) = map without_content (pending_articles t2)
            \<and> pending_logs t1 = pending_logs t2"
    then obtain t1 t2 where p: "process_source (w\<lparr>newspaper_text := nt\<rparr>) db s1 s = Inr t1"
      "process_source w db s2 s = Inr t2"
      and r: "map without_content (pending_articles t1) = map without_content (pending_articles t2)"
      "pending_logs t1 = pending_logs t2"
      by blast
    from Cons.IH [OF r] show ?thesis by (simp add: p)
  qed
qed

lemma update_news_newspaper_text:
  "map without_content (articles (update_news (w\<lparr>newspaper_text := nt\<rparr>) db))
     = map without_content (articles (update_news w db))
   \<and> update_logs (update_news (w\<lparr>newspaper_text := nt\<rparr>) db) = update_logs (update_news w db)
   \<and> update_news_raises (w\<lparr>newspaper_text := nt\<rparr>) db = update_news_raises w db"
  using run_sources_newspaper_text
          [where ?s1.0 = empty_session and ?s2.0 = empty_session and w = w and nt = nt
             and db = db and srcs = "active_sources db"]
  by (auto simp: update_news_tables update_news_raises_def)

section \<open>The image search on every entry\<close>

lemma first_url_hd:
  "ms \<noteq> [] \<Longrightarrow>
   first_url ms = (case media_url (hd ms) of Some x \<Rightarrow> Inr (Some x) | None \<Rightarrow> Inl KeyError)"
  by (cases ms) simp_all

lemma structured_media_image:
  assumes "e_media_content e = pre @ m # post" "\<forall>p\<in>set pre. \<not> is_image_media p"
    "is_image_media m"
  shows "structured_image e =
     (case media_url m of
        None \<Rightarrow> Inl (KeyError, None)
      | Some x \<Rightarrow>
          if x \<noteq> [] then Inr (Some x)
          else (case media_url (hd (e_media_content e)) of
                  None \<Rightarrow> Inl (KeyError, Some [])
                | Some y \<Rightarrow> Inr (Some y)))"
proof -
  have ne: "e_media_content e \<noteq> []" using assms(1) by simp
  have f: "first_image_media (e_media_content e) =
             (case media_url m of Some x \<Rightarrow> Inr (Some x) | None \<Rightarrow> Inl KeyError)"
    unfolding assms(1) using assms(2,3) by (rule first_image_media_split)
  show ?thesis
    by (simp add: structured_image_def ne f first_url_hd [OF ne] split: option.splits)
qed

lemma structured_media_first:
  assumes "e_media_content e \<noteq> []" "\<forall>p\<in>set (e_media_content e). \<not> is_image_media p"
  shows "structured_image e =
     (case media_url (hd (e_media_content e)) of
        None \<Rightarrow> Inl (KeyError, None)
      | Some y \<Rightarrow> Inr (Some y))"
  using assms first_image_media_none [OF assms(2)]
  by (simp add: structured_image_def first_url_hd split: option.splits)

lemma structured_thumbnail:
  assumes "e_media_content e = []" "e_media_thumbnail e \<noteq> []"
  shows "structured_image e =
     (case media_url (hd (e_media_thumbnail e)) of
        None \<Rightarrow> Inl (KeyError, None)
      | Some y \<Rightarrow> Inr (Some y))"
  using assms by (simp add: structured_image_def first_url_hd split: option.splits)

lemma structured_enclosure:
  assumes "e_media_content e = []" "e_media_thumbnail e = []"
    "e_enclosures e = pre @ c # post" "\<forall>p\<in>set pre. \<not> is_image_enclosure p"
    "is_image_enclosure c"
  shows "structured_image e =
     (case enc_href c of
        None \<Rightarrow> Inl (AttributeError, None)
      | Some h \<Rightarrow> Inr (Some h))"
  using assms
  by (simp add: structured_image_def first_image_enclosure_split split: option.splits)

lemma image_when_raised:
  "structured_image e = Inl (x, img) \<Longrightarrow> entry_image_url w src e = img"
  by (simp add: entry_image_url_def)

lemma image_when_found:
  "structured_image e = Inr (Some x) \<Longrightarrow> x \<noteq> [] \<Longrightarrow>
   entry_image_url w src e = checked_image_url w src (Some x)"
  by (simp add: entry_image_url_def)

lemma checked_falsy: "\<not> truthy f \<Longrightarrow> checked_image_url w src f = f"
  by (cases f) (simp_all add: checked_image_url_def fix_image_url_def)

lemma image_when_scanned:
  assumes "structured_image e = Inr f" "\<not> truthy f" "content_to_search e = Inr c" "c \<noteq> []"
    "find_img_srcs w c = pre @ Some s # post" "\<forall>p\<in>set pre. \<not> usable_src p"
    "usable_src (Some s)"
  shows "entry_image_url w src e = checked_image_url w src (Some s)"
  using assms by (simp add: entry_image_url_def scan_markup_def first_img_src_split)

lemma image_when_no_markup:
  assumes "structured_image e = Inr f" "\<not> truthy f" "content_to_search e = Inr []"
  shows "entry_image_url w src e = f"
  using assms by (simp add: entry_image_url_def scan_markup_def checked_falsy)

lemma image_when_no_img:
  assumes "structured_image e = Inr f" "\<not> truthy f" "content_to_search e = Inr c"
    "\<forall>p\<in>set (find_img_srcs w c). \<not> usable_src p"
  shows "entry_image_url w src e = f"
  using assms
  by (simp add: entry_image_url_def scan_markup_def first_img_src_none checked_falsy)

lemma image_when_scan_raised:
  assumes "structured_image e = Inr f" "\<not> truthy f" "content_to_search e = Inl x"
  shows "entry_image_url w src e = f"
  using assms by (simp add: entry_image_url_def scan_markup_def)

lemma checked_unparsed_site:
  "startswith x (u ''/'') \<Longrightarrow> \<not> startswith x (u ''//'') \<Longrightarrow>
   urlparse w (src_url src) = None \<Longrightarrow> checked_image_url w src (Some x) = Some x"
  using startswith_slash [of x] by (simp add: checked_image_url_def fix_image_url_def)

lemma ex_image_nourl: "entry_image_url ex_world ex_source ex_entry_nourl = None"
  by (simp add: entry_image_url_def structured_image_def ex_entry_nourl_def is_image_media_def
        ex_media_nourl_def startswith_def u_def)
section \<open>The claims\<close>

text \<open>
  Claim C3. The link column holds no duplicates before a cycle (its uniqueness constraint).
  Then no cycle creates a duplicate, and no cycle removes or changes a row that was
  there: the table after the cycle starts with the table before it. When the first of two
  cycles found its storage working (no lookup raised and the commit succeeded) and the
  feeds and the entry limit are the same in the second cycle, the second cycle inserts
  nothing, every update-log row it stages has an article count of zero, and every link
  the first cycle fetched from an active source has exactly one row afterwards. This holds
  whatever happens to the second cycle, also when an exception ends it; and the second
  cycle reaches the end of its loop when none of its lookups raises.
\<close>

theorem ingestion_idempotent_on_link:
  assumes "distinct (map link (articles db))"
  shows "distinct (map link (articles (update_news w db)))
       \<and> take (length (articles db)) (articles (update_news w db)) = articles db
       \<and> (commit_ok w \<and> (\<forall>s l. query_error w s l = None)
            \<and> feedparser_parse w' = feedparser_parse w
            \<and> getenv_max_articles w' = getenv_max_articles w \<longrightarrow>
            articles (update_news w' (update_news w db)) = articles (update_news w db)
          \<and> (\<forall>sess. run_sources w' (update_news w db)
                        (active_sources (update_news w db)) empty_session = Inr sess \<longrightarrow>
                (\<forall>lg\<in>set (pending_logs sess). articles_count lg = 0))
          \<and> (\<forall>src\<in>set (active_sources db). \<forall>d\<in>set (fetch_rss_feed w src).
                length (filter (\<lambda>a. link a = ad_link d)
                          (articles (update_news w' (update_news w db)))) = 1)
          \<and> ((\<forall>s l. query_error w' s l = None) \<longrightarrow>
                (\<exists>sess. run_sources w' (update_news w db)
                          (active_sources (update_news w db)) empty_session = Inr sess)))"
proof -
  define db1 where "db1 = update_news w db"
  have st0: "stored_links db empty_session = link ` set (articles db)"
    by (simp add: stored_links_def)
  have shape: "distinct (map link (articles db @ pending_articles sess))"
    if "run_sources w db (active_sources db) empty_session = Inr sess" for sess
  proof -
    from run_sources_shape [OF that]
    have "distinct (map link (pending_articles sess))"
      and "link ` set (pending_articles sess) \<inter> link ` set (articles db) = {}"
      by (auto simp: st0)
    with assms show ?thesis by auto
  qed
  have arts: "articles db1 =
      (case run_sources w db (active_sources db) empty_session of
         Inl x \<Rightarrow> articles db
       | Inr sess \<Rightarrow> if commit_ok w then articles db @ pending_articles sess else articles db)"
    by (simp add: db1_def update_news_tables split: sum.splits)
  have c1: "distinct (map link (articles db1))"
    using shape assms by (auto simp: arts split: sum.splits)
  have c2: "take (length (articles db)) (articles db1) = articles db"
    by (simp add: arts split: sum.splits)
  have c3: "articles (update_news w' db1) = articles db1
          \<and> (\<forall>sess. run_sources w' db1 (active_sources db1) empty_session = Inr sess \<longrightarrow>
                (\<forall>lg\<in>set (pending_logs sess). articles_count lg = 0))
          \<and> (\<forall>src\<in>set (active_sources db). \<forall>d\<in>set (fetch_rss_feed w src).
                length (filter (\<lambda>a. link a = ad_link d) (articles (update_news w' db1))) = 1)
          \<and> ((\<forall>s l. query_error w' s l = None) \<longrightarrow>
                (\<exists>sess. run_sources w' db1 (active_sources db1) empty_session = Inr sess))"
    if ok: "commit_ok w" and noerr: "\<forall>s l. query_error w s l = None"
      and feed: "feedparser_parse w' = feedparser_parse w"
      and lim: "getenv_max_articles w' = getenv_max_articles w"
  proof -
    from run_sources_covers [OF noerr, of db "active_sources db" empty_session]
    obtain sess where run: "run_sources w db (active_sources db) empty_session = Inr sess"
      and cov: "\<forall>src\<in>set (active_sources db).
                  ad_link ` set (fetch_rss_feed w src) \<subseteq> stored_links db sess"
      by blast
    have a1: "articles db1 = articles db @ pending_articles sess"
      using ok run by (simp add: arts)
    have act: "active_sources db1 = active_sources db"
      by (simp add: db1_def update_news_tables active_sources_def split: sum.splits)
    have st1: "stored_links db1 empty_session = stored_links db sess"
      by (simp add: stored_links_def a1)
    have cover: "ad_link ` set (fetch_rss_feed w src) \<subseteq> stored_links db1 empty_session"
      if "src \<in> set (active_sources db)" for src
      using cov that by (simp add: st1)
    have same: "ad_link ` set (fetch_rss_feed w' src) = ad_link ` set (fetch_rss_feed w src)"
      for src
    proof -
      have "set (map ad_link (fetch_rss_feed w' src)) = set (map ad_link (fetch_rss_feed w src))"
        by (simp only: fetch_links_unchanged [OF feed lim])
      then show ?thesis by simp
    qed
    have stored: "\<forall>src\<in>set (active_sources db1).
            ad_link ` set (fetch_rss_feed w' src) \<subseteq> stored_links db1 empty_session"
      using cover by (simp add: act same)
    have zero: "\<forall>lg\<in>set (pending_logs sess2). articles_count lg = 0"
      and none: "pending_articles sess2 = []"
      if "run_sources w' db1 (active_sources db1) empty_session = Inr sess2" for sess2
      using run_sources_all_stored [OF stored that] by auto
    have a2: "articles (update_news w' db1) = articles db1"
      using none by (simp add: update_news_tables split: sum.splits)
    have one: "length (filter (\<lambda>a. link a = ad_link d) (articles (update_news w' db1))) = 1"
      if "src \<in> set (active_sources db)" and "d \<in> set (fetch_rss_feed w src)" for src d
    proof -
      from cover [OF that(1)] that(2)
      have "ad_link d \<in> link ` set (articles db1)"
        by (auto simp: stored_links_def)
      with c1 show ?thesis
        unfolding a2 by (rule count_one_of_distinct)
    qed
    have ends: "\<exists>sess. run_sources w' db1 (active_sources db1) empty_session = Inr sess"
      if "\<forall>s l. query_error w' s l = None"
      using run_sources_covers [OF that, of db1 "active_sources db1" empty_session] by blast
    show ?thesis using a2 zero one ends by blast
  qed
  show ?thesis
    using c1 c2 c3 unfolding db1_def by blast
qed

theorem ingestion_idempotent_on_link_witness:
  "distinct (map link (articles ex_db))
   \<and> commit_ok ex_world
   \<and> (\<forall>s l. query_error ex_world s l = None)
   \<and> feedparser_parse ex_world_later = feedparser_parse ex_world
   \<and> getenv_max_articles ex_world_later = getenv_max_articles ex_world
   \<and> articles (update_news ex_world ex_db) = [ex_article_a, ex_article_b]
   \<and> articles (update_news ex_world_later (update_news ex_world ex_db))
       = [ex_article_a, ex_article_b]
   \<and> ex_source \<in> set (active_sources ex_db)
   \<and> ex_data_a \<in> set (fetch_rss_feed ex_world ex_source)
   \<and> length (filter (\<lambda>a. link a = ad_link ex_data_a)
               (articles (update_news ex_world_later (update_news ex_world ex_db)))) = 1"
proof -
  have h1: "distinct (map link (articles ex_db))" by (simp add: ex_db_def)
  have h2: "\<forall>s l. query_error ex_world s l = None" by (simp add: ex_world_def)
  have h3: "feedparser_parse ex_world_later = feedparser_parse ex_world"
    and h4: "getenv_max_articles ex_world_later = getenv_max_articles ex_world"
    by (simp_all add: ex_world_later_def)
  have m1: "ex_source \<in> set (active_sources ex_db)" by (simp add: ex_active)
  have m2: "ex_data_a \<in> set (fetch_rss_feed ex_world ex_source)" by (simp add: ex_fetch)
  have first: "articles (update_news ex_world ex_db) = [ex_article_a, ex_article_b]"
    using ex_commit by (simp add: update_news_tables ex_run) (simp add: ex_db_def)
  note t = ingestion_idempotent_on_link [OF h1, of ex_world ex_world_later]
  from t ex_commit h2 h3 h4
  have second: "articles (update_news ex_world_later (update_news ex_world ex_db))
                  = articles (update_news ex_world ex_db)"
    by blast
  from t ex_commit h2 h3 h4 m1 m2
  have once: "length (filter (\<lambda>a. link a = ad_link ex_data_a)
               (articles (update_news ex_world_later (update_news ex_world ex_db)))) = 1"
    by blast
  show ?thesis using h1 ex_commit h2 h3 h4 first second m1 m2 once by simp
qed

text \<open>
  Claim C4, at the input where the code departs from it. The link is read with an
  unguarded attribute access, so one entry without a link among the entries taken from
  the feed raises inside \<^verbatim>\<open>fetch_rss_feed\<close>, whose handler returns the empty list: every
  entry of the source is lost, those with a link too, and the source's row reports 0
  processed and 0 new articles.
\<close>

theorem missing_link_empties_the_feed:
  assumes "feedparser_parse w (src_rss_url src) = Some es"
    and "getenv_max_articles w = Unset"
    and "e \<in> set (take 50 es)"
    and "e_link e = None"
  shows "fetch_rss_feed w src = []
       \<and> process_source w db sess src =
           Inr (sess\<lparr>pending_logs := pending_logs sess @
             [\<lparr> log_source_id = src_id src, status = u ''success'',
                message = success_message 0 0, articles_count = 0 \<rparr>]\<rparr>)"
proof -
  from normalize_entries_missing_link [OF assms(3,4)]
  obtain x where "normalize_entries w src (take 50 es) = Inl x" by blast
  then have f: "fetch_rss_feed w src = []"
    using assms(1,2) by (simp add: fetch_rss_feed_def slice_to_def)
  with process_source_empty_feed [OF f] show ?thesis by simp
qed

theorem missing_link_empties_the_feed_witness:
  "feedparser_parse ex_world_nolink (src_rss_url ex_source)
     = Some [ex_entry_a, ex_entry_nolink, ex_entry_b]
   \<and> getenv_max_articles ex_world_nolink = Unset
   \<and> e_link ex_entry_a = Some (u ''a'')
   \<and> e_link ex_entry_nolink = None
   \<and> e_link ex_entry_b = Some (u ''b'')
   \<and> fetch_rss_feed ex_world_nolink ex_source = []
   \<and> process_source ex_world_nolink ex_db empty_session ex_source =
       Inr \<lparr> pending_articles = [],
             pending_logs = [\<lparr> log_source_id = 1, status = u ''success'',
                               message = success_message 0 0, articles_count = 0 \<rparr>] \<rparr>
   \<and> feedparser_parse ex_world (src_rss_url ex_source) = Some [ex_entry_a, ex_entry_b]
   \<and> fetch_rss_feed ex_world ex_source = [ex_data_a, ex_data_b]"
proof -
  have p: "feedparser_parse ex_world_nolink (src_rss_url ex_source)
             = Some [ex_entry_a, ex_entry_nolink, ex_entry_b]"
    and g: "getenv_max_articles ex_world_nolink = Unset"
    by (simp_all add: ex_world_nolink_def ex_world_def ex_source_def)
  have l: "e_link ex_entry_a = Some (u ''a'')" "e_link ex_entry_nolink = None"
    "e_link ex_entry_b = Some (u ''b'')"
    by (simp_all add: ex_entry_a_def ex_entry_nolink_def ex_entry_b_def)
  have m: "ex_entry_nolink \<in> set (take 50 [ex_entry_a, ex_entry_nolink, ex_entry_b])"
    by simp
  note t = missing_link_empties_the_feed [OF p g m l(2), of ex_db empty_session]
  from t have a: "fetch_rss_feed ex_world_nolink ex_source = []" by simp
  from t have b: "process_source ex_world_nolink ex_db empty_session ex_source =
       Inr \<lparr> pending_articles = [],
             pending_logs = [\<lparr> log_source_id = 1, status = u ''success'',
                               message = success_message 0 0, articles_count = 0 \<rparr>] \<rparr>"
    by (simp add: empty_session_def ex_source_def)
  show ?thesis using p g l a b ex_parse ex_fetch by simp
qed

text \<open>
  Claim C5. The rows of a cycle are persisted at one point, after every source has been
  processed: the one commit of the cycle is given everything the sources staged. When it
  succeeds, the tables grow by exactly the staged articles and update-log rows, in the
  order they were staged, and nothing stays pending; when it raises, the one rollback
  empties the session and the database is as it was before the cycle, with none of the
  staged rows. A cycle that an exception ends before the commit writes nothing either.
  The cycle writes to no other table.
\<close>

theorem cycle_persistence_is_atomic:
  "(\<forall>sess. run_sources w db (active_sources db) empty_session = Inr sess \<longrightarrow>
      (commit_ok w \<longrightarrow>
         commit w (db, sess) = Some (update_news w db, empty_session)
       \<and> articles (update_news w db) = articles db @ pending_articles sess
       \<and> update_logs (update_news w db) = update_logs db @ pending_logs sess)
    \<and> (\<not> commit_ok w \<longrightarrow>
         commit w (db, sess) = None
       \<and> rollback (db, sess) = (db, empty_session)
       \<and> update_news w db = db))
   \<and> (\<forall>x. run_sources w db (active_sources db) empty_session = Inl x \<longrightarrow>
         update_news w db = db)
   \<and> sources (update_news w db) = sources db
   \<and> categories (update_news w db) = categories db"
proof (cases "run_sources w db (active_sources db) empty_session")
  case (Inl x)
  then show ?thesis by (simp add: update_news_tables)
next
  case (Inr sess)
  show ?thesis
  proof (cases "commit_ok w")
    case True
    then show ?thesis using Inr
      by (simp add: update_news_tables commit_def)
  next
    case False
    then show ?thesis using Inr
      by (simp add: update_news_tables commit_def rollback_def)
  qed
qed

theorem cycle_persistence_is_atomic_witness:
  "commit_ok ex_world
   \<and> run_sources ex_world ex_db (active_sources ex_db) empty_session =
       Inr \<lparr> pending_articles = [ex_article_a, ex_article_b],
             pending_logs = [\<lparr> log_source_id = 1, status = u ''success'',
                               message = success_message 2 2, articles_count = 2 \<rparr>,
                             \<lparr> log_source_id = 3, status = u ''success'',
                               message = success_message 0 0, articles_count = 0 \<rparr>] \<rparr>
   \<and> articles (update_news ex_world ex_db) = [ex_article_a, ex_article_b]
   \<and> map log_source_id (update_logs (update_news ex_world ex_db)) = [1, 3]
   \<and> \<not> commit_ok ex_world_commit_fails
   \<and> run_sources ex_world_commit_fails ex_db (active_sources ex_db) empty_session =
       run_sources ex_world ex_db (active_sources ex_db) empty_session
   \<and> update_news ex_world_commit_fails ex_db = ex_db
   \<and> run_sources ex_world_flush_fails ex_db (active_sources ex_db) empty_session
       = Inl PendingRollbackError
   \<and> update_news ex_world_flush_fails ex_db = ex_db
   \<and> articles ex_db = []"
proof -
  have nc: "\<not> commit_ok ex_world_commit_fails"
    by (simp add: ex_world_commit_fails_def)
  have e: "articles ex_db = []" "update_logs ex_db = []"
    by (simp_all add: ex_db_def)
  from cycle_persistence_is_atomic [of ex_world ex_db] ex_commit ex_run
  have a: "articles (update_news ex_world ex_db) = [ex_article_a, ex_article_b]"
    and b: "map log_source_id (update_logs (update_news ex_world ex_db)) = [1, 3]"
    by (simp_all add: e)
  from cycle_persistence_is_atomic [of ex_world_commit_fails ex_db] nc
    ex_run_commit_fails ex_run
  have c: "update_news ex_world_commit_fails ex_db = ex_db"
    by simp
  from cycle_persistence_is_atomic [of ex_world_flush_fails ex_db] ex_run_flush_fails
  have d: "update_news ex_world_flush_fails ex_db = ex_db"
    by simp
  show ?thesis
    using ex_commit ex_run a b nc ex_run_commit_fails c ex_run_flush_fails d e(1) by simp
qed

text \<open>
  Claim C7. The title of a normalized entry is the title of the feed cut to its first 500
  characters, so exactly 500 characters when the feed's title is longer and the title itself
  otherwise, and a fixed placeholder when the entry has no title. The description is the
  text left after the tags are stripped; when that text is longer than 1000 characters it
  is its first 1000 characters followed by the three-character ellipsis.
\<close>

theorem title_and_description_truncated:
  assumes "normalize_entry w src e = Inr a"
  shows "(case e_title e of
            None \<Rightarrow> ad_title a = no_title
          | Some t \<Rightarrow> ad_title a = take 500 t
                     \<and> (length t > 500 \<longrightarrow> length (ad_title a) = 500)
                     \<and> (length t \<le> 500 \<longrightarrow> ad_title a = t))
       \<and> (raw_description e \<noteq> [] \<longrightarrow>
            (let text = get_text w (raw_description e)
             in (length text > 1000 \<longrightarrow>
                   ad_description a = take 1000 text @ u ''...''
                   \<and> length (ad_description a) = 1003)
              \<and> (length text \<le> 1000 \<longrightarrow> ad_description a = text)))
       \<and> (raw_description e = [] \<longrightarrow> ad_description a = [])"
  using assms
  by (auto simp: normalize_entry_def entry_title_def entry_description_def Let_def u_def
           split: option.splits)

theorem title_and_description_truncated_witness:
  "normalize_entry ex_world ex_source ex_entry_long =
     Inr \<lparr> ad_title = replicate 500 116, ad_description = replicate 1000 100 @ u ''...'',
           ad_link = u ''c'', ad_published_at = 63845000000000000, ad_guid = u ''c'',
           ad_source_id = 1, ad_category_id = 7, ad_image_url = None \<rparr>
   \<and> e_title ex_entry_long = Some (replicate 501 116)
   \<and> raw_description ex_entry_long = replicate 1001 100
   \<and> get_text ex_world (replicate 1001 100) = replicate 1001 100
   \<and> length (replicate 500 (116::nat)) = 500
   \<and> length (replicate 1000 (100::nat) @ u ''...'') = 1003"
proof -
  have f: "e_title ex_entry_long = Some (replicate 501 116)"
    "raw_description ex_entry_long = replicate 1001 100"
    "get_text ex_world (replicate 1001 100) = replicate 1001 100"
    by (simp_all add: ex_entry_long_def raw_description_def ex_world_def)
  from title_and_description_truncated [OF ex_normalize_long]
  have "length (replicate 500 (116::nat)) = 500
        \<and> length (replicate 1000 (100::nat) @ u ''...'') = 1003"
    by (simp add: f Let_def)
  then show ?thesis using ex_normalize_long f by simp
qed

text \<open>
  Claim C1, with the input where the code departs from it. A cycle that reaches its commit
  has staged exactly one update-log row for each active source, in the order of the
  sources, with status \<^verbatim>\<open>success\<close> or \<^verbatim>\<open>error\<close>, and none for a source that is not active;
  when the commit succeeds these rows are what the cycle appends to the table. The
  handler that adds the error row does not reach that point when the lookup failed in its
  flush: reading the name of the source raises inside the handler, the loop and the cycle
  end there, the later sources are not processed and no row is written for any source,
  those processed before included.
\<close>

theorem update_logs_of_a_cycle:
  "(\<forall>sess. run_sources w db (active_sources db) empty_session = Inr sess \<longrightarrow>
      map log_source_id (pending_logs sess) = map src_id (filter src_is_active (sources db))
    \<and> update_news_raises w db = None
    \<and> (commit_ok w \<longrightarrow>
         map log_source_id (update_logs (update_news w db))
           = map log_source_id (update_logs db)
             @ map src_id (filter src_is_active (sources db))))
   \<and> (\<forall>m. snd (stage_articles w db src (fetch_rss_feed w src) cur 0) = Inl (FlushFailed m) \<longrightarrow>
         process_source w db cur src = Inl PendingRollbackError
       \<and> run_sources w db (src # rest) cur = Inl PendingRollbackError)
   \<and> (\<forall>x. run_sources w db (active_sources db) empty_session = Inl x \<longrightarrow>
         update_news_raises w db = Some x
       \<and> update_news w db = db)"
proof (intro conjI allI impI)
  fix sess
  assume r: "run_sources w db (active_sources db) empty_session = Inr sess"
  from run_sources_shape [OF r]
  show ids: "map log_source_id (pending_logs sess)
               = map src_id (filter src_is_active (sources db))"
    by (auto simp: active_sources_def)
  show "update_news_raises w db = None"
    using r by (simp add: update_news_raises_def)
  assume "commit_ok w"
  then show "map log_source_id (update_logs (update_news w db))
           = map log_source_id (update_logs db)
             @ map src_id (filter src_is_active (sources db))"
    using r ids by (simp add: update_news_tables)
next
  fix m
  assume f: "snd (stage_articles w db src (fetch_rss_feed w src) cur 0) = Inl (FlushFailed m)"
  with process_source_cases [of w db src cur]
  show p: "process_source w db cur src = Inl PendingRollbackError"
    by (metis Inl_inject lookup_failure.distinct(1) snd_conv sum.distinct(1))
  then show "run_sources w db (src # rest) cur = Inl PendingRollbackError"
    by simp
next
  fix x
  assume "run_sources w db (active_sources db) empty_session = Inl x"
  then show "update_news_raises w db = Some x" "update_news w db = db"
    by (simp_all add: update_news_raises_def update_news_tables)
qed

theorem update_logs_of_a_cycle_witness:
  "map src_id (sources ex_db) = [1, 2, 3]
   \<and> map src_is_active (sources ex_db) = [True, False, True]
   \<and> update_logs ex_db = []
   \<and> commit_ok ex_world_flush_fails
   \<and> stage_articles ex_world_flush_fails ex_db ex_source
        (fetch_rss_feed ex_world_flush_fails ex_source) empty_session 0 =
       (\<lparr> pending_articles = [ex_article_a], pending_logs = [] \<rparr>,
        Inl (FlushFailed (u ''too long'')))
   \<and> run_sources ex_world_flush_fails ex_db (active_sources ex_db) empty_session
       = Inl PendingRollbackError
   \<and> update_news_raises ex_world_flush_fails ex_db = Some PendingRollbackError
   \<and> update_news ex_world_flush_fails ex_db = ex_db
   \<and> update_logs (update_news ex_world_flush_fails ex_db) = []
   \<and> map log_source_id (update_logs (update_news ex_world ex_db)) = [1, 3]
   \<and> map status (update_logs (update_news ex_world_query_fails ex_db))
       = [u ''error'', u ''success'']
   \<and> map log_source_id (update_logs (update_news ex_world_query_fails ex_db)) = [1, 3]"
proof -
  have srcs: "map src_id (sources ex_db) = [1, 2, 3]"
    "map src_is_active (sources ex_db) = [True, False, True]"
    "map src_id (filter src_is_active (sources ex_db)) = [1, 3]"
    "update_logs ex_db = []"
    by (simp_all add: ex_db_def ex_source_def ex_source_inactive_def ex_source_down_def)
  have ok: "commit_ok ex_world_flush_fails" "commit_ok ex_world_query_fails"
    by (simp_all add: ex_world_flush_fails_def ex_world_query_fails_def ex_world_def)
  have f: "fetch_rss_feed ex_world_flush_fails ex_source = [ex_data_a, ex_data_b]"
    by (simp add: ex_world_flush_fails_def fetch_query_error ex_fetch)
  have st: "stage_articles ex_world_flush_fails ex_db ex_source
        (fetch_rss_feed ex_world_flush_fails ex_source) empty_session 0 =
       (\<lparr> pending_articles = [ex_article_a], pending_logs = [] \<rparr>,
        Inl (FlushFailed (u ''too long'')))"
    unfolding f by (rule ex_stage_flush_fails)
  note t = update_logs_of_a_cycle
    [where w = ex_world_flush_fails and db = ex_db and src = ex_source
       and cur = empty_session and rest = "[ex_source_down]"]
  from t st have r: "run_sources ex_world_flush_fails ex_db [ex_source, ex_source_down]
                       empty_session = Inl PendingRollbackError"
    by simp
  then have r': "run_sources ex_world_flush_fails ex_db (active_sources ex_db) empty_session
                  = Inl PendingRollbackError"
    by (simp add: ex_active)
  from t r' have d: "update_news_raises ex_world_flush_fails ex_db = Some PendingRollbackError"
    and u: "update_news ex_world_flush_fails ex_db = ex_db"
    by simp_all
  from update_logs_of_a_cycle [where w = ex_world and db = ex_db] ex_run ex_commit
  have a: "map log_source_id (update_logs (update_news ex_world ex_db)) = [1, 3]"
    by (simp add: srcs)
  from update_logs_of_a_cycle [where w = ex_world_query_fails and db = ex_db]
    ex_run_query_fails ok(2)
  have b: "map log_source_id (update_logs (update_news ex_world_query_fails ex_db)) = [1, 3]"
    by (simp add: srcs)
  have c: "map status (update_logs (update_news ex_world_query_fails ex_db))
             = [u ''error'', u ''success'']"
    using ok(2) by (simp add: update_news_tables ex_run_query_fails srcs)
  show ?thesis using srcs(1,2,4) ok(1) st r' d u a b c by simp
qed

text \<open>
  Claim C2, as the code has it. A feed fetch that raises is caught inside
  \<^verbatim>\<open>fetch_rss_feed\<close> and becomes the empty list of articles, so the source takes the
  success branch of the cycle: it gets exactly one update-log row, with status
  \<^verbatim>\<open>success\<close>, the message for 0 processed and 0 new articles and an article count of
  zero, it stages no article, and the loop goes on with the sources after it from the
  session that holds this row. When the rest of the loop reaches its end, the staged rows
  are this row and one row for each later source.
\<close>

theorem fetch_failure_is_logged_as_success:
  assumes "feedparser_parse w (src_rss_url src) = None"
  shows "fetch_rss_feed w src = []
       \<and> process_source w db sess src =
           Inr (sess\<lparr>pending_logs := pending_logs sess @
             [\<lparr> log_source_id = src_id src, status = u ''success'',
                message = success_message 0 0, articles_count = 0 \<rparr>]\<rparr>)
       \<and> run_sources w db (src # rest) sess =
           run_sources w db rest
             (sess\<lparr>pending_logs := pending_logs sess @
               [\<lparr> log_source_id = src_id src, status = u ''success'',
                  message = success_message 0 0, articles_count = 0 \<rparr>]\<rparr>)
       \<and> (\<forall>sess'. run_sources w db (src # rest) sess = Inr sess' \<longrightarrow>
             map log_source_id (pending_logs sess') =
               map log_source_id (pending_logs sess) @ src_id src # map src_id rest)"
proof -
  have f: "fetch_rss_feed w src = []"
    using assms by (simp add: fetch_rss_feed_def)
  note p = process_source_empty_feed [OF f, of db sess]
  have "map log_source_id (pending_logs sess') =
           map log_source_id (pending_logs sess) @ src_id src # map src_id rest"
    if "run_sources w db (src # rest) sess = Inr sess'" for sess'
    using run_sources_shape [OF that] by auto
  then show ?thesis
    using f p by simp
qed

theorem fetch_failure_is_logged_as_success_witness:
  "feedparser_parse ex_world (src_rss_url ex_source_down) = None
   \<and> process_source ex_world ex_db empty_session ex_source_down =
       Inr \<lparr> pending_articles = [],
             pending_logs = [\<lparr> log_source_id = 3, status = u ''success'',
                               message = success_message 0 0, articles_count = 0 \<rparr>] \<rparr>
   \<and> run_sources ex_world ex_db [ex_source_down, ex_source] empty_session =
       Inr \<lparr> pending_articles = [ex_article_a, ex_article_b],
             pending_logs = [\<lparr> log_source_id = 3, status = u ''success'',
                               message = success_message 0 0, articles_count = 0 \<rparr>,
                             \<lparr> log_source_id = 1, status = u ''success'',
                               message = success_message 2 2, articles_count = 2 \<rparr>] \<rparr>"
proof -
  note t = fetch_failure_is_logged_as_success
    [OF ex_parse_down, of ex_db empty_session "[ex_source]"]
  from t have a: "process_source ex_world ex_db empty_session ex_source_down =
       Inr \<lparr> pending_articles = [],
             pending_logs = [\<lparr> log_source_id = 3, status = u ''success'',
                               message = success_message 0 0, articles_count = 0 \<rparr>] \<rparr>"
    by (simp add: empty_session_def ex_source_down_def)
  have s: "stage_articles ex_world ex_db ex_source [ex_data_a, ex_data_b]
       \<lparr> pending_articles = [],
         pending_logs = [\<lparr> log_source_id = 3, status = u ''success'',
                           message = success_message 0 0, articles_count = 0 \<rparr>] \<rparr> 0 =
     (\<lparr> pending_articles = [ex_article_a, ex_article_b],
        pending_logs = [\<lparr> log_source_id = 3, status = u ''success'',
                          message = success_message 0 0, articles_count = 0 \<rparr>] \<rparr>, Inr 2)"
    by (simp add: article_query_first_def Let_def extract_article_content_def make_article_def
          ex_world_def ex_db_def ex_source_def ex_data_a_def ex_data_b_def
          ex_article_a_def ex_article_b_def u_def)
  have p: "process_source ex_world ex_db
       \<lparr> pending_articles = [],
         pending_logs = [\<lparr> log_source_id = 3, status = u ''success'',
                           message = success_message 0 0, articles_count = 0 \<rparr>] \<rparr> ex_source =
       Inr \<lparr> pending_articles = [ex_article_a, ex_article_b],
             pending_logs = [\<lparr> log_source_id = 3, status = u ''success'',
                               message = success_message 0 0, articles_count = 0 \<rparr>,
                             \<lparr> log_source_id = 1, status = u ''success'',
                               message = success_message 2 2, articles_count = 2 \<rparr>] \<rparr>"
    unfolding process_source_def ex_fetch Let_def s
    by (simp add: ex_source_def numeral_2_eq_2)
  from t [THEN conjunct2, THEN conjunct2, THEN conjunct1]
  have b: "run_sources ex_world ex_db [ex_source_down, ex_source] empty_session =
       Inr \<lparr> pending_articles = [ex_article_a, ex_article_b],
             pending_logs = [\<lparr> log_source_id = 3, status = u ''success'',
                               message = success_message 0 0, articles_count = 0 \<rparr>,
                             \<lparr> log_source_id = 1, status = u ''success'',
                               message = success_message 2 2, articles_count = 2 \<rparr>] \<rparr>"
    by (simp add: empty_session_def ex_source_down_def p)
  show ?thesis using ex_parse_down a b by simp
qed

text \<open>
  The claim as the specification words it fails: the row of a source whose fetch raises
  has status \<^verbatim>\<open>success\<close>, not \<^verbatim>\<open>error\<close>.
\<close>

theorem fetch_failure_status_counterexample:
  "feedparser_parse ex_world (src_rss_url ex_source_down) = None
   \<and> process_source ex_world ex_db empty_session ex_source_down =
       Inr \<lparr> pending_articles = [],
             pending_logs = [\<lparr> log_source_id = 3, status = u ''success'',
                               message = success_message 0 0, articles_count = 0 \<rparr>] \<rparr>
   \<and> u ''success'' \<noteq> u ''error''"
  by (simp add: ex_parse_down ex_process_down) (simp add: u_def empty_session_def)






text \<open>
  Claim C10, as the code has it. Every listing of articles on the read side (the home
  page, the page of a category, the two JSON listings) returns only active articles of
  the table whose published timestamp is not older than seven days (604800000000
  microseconds) before the time of the query, whatever the page, page-size and source
  parameters of the request are. The window has this lower bound only: the number of
  rows a JSON listing pages through, and the counts of the statistics, in total and for
  each category, are the numbers of active articles that are not older than seven days,
  those dated after the time of the query included.
\<close>

theorem read_side_seven_day_window:
  "(\<forall>a\<in>set (pg_items (index w db page_arg source_arg)).
       utcnow w - 604800000000 \<le> published_at a \<and> is_active a \<and> a \<in> set (articles db))
   \<and> (\<forall>p. category_news w db name page_arg source_arg = Some p \<longrightarrow>
        (\<forall>a\<in>set (pg_items p).
           utcnow w - 604800000000 \<le> published_at a \<and> is_active a \<and> a \<in> set (articles db)))
   \<and> (\<forall>a\<in>set (pg_items (api_news w db page_arg per_page_arg)).
       utcnow w - 604800000000 \<le> published_at a \<and> is_active a \<and> a \<in> set (articles db))
   \<and> (\<forall>p. api_category_news w db name page_arg per_page_arg = Some p \<longrightarrow>
        (\<forall>a\<in>set (pg_items p).
           utcnow w - 604800000000 \<le> published_at a \<and> is_active a \<and> a \<in> set (articles db)))
   \<and> pg_total (api_news w db page_arg per_page_arg) =
       length (filter (\<lambda>a. is_active a \<and> utcnow w - 604800000000 \<le> published_at a)
                 (articles db))
   \<and> total_articles (api_stats w db) =
       length (filter (\<lambda>a. is_active a \<and> utcnow w - 604800000000 \<le> published_at a)
                 (articles db))
   \<and> map (\<lambda>(n, d, k). k) (stats_categories (api_stats w db)) =
       map (\<lambda>c. length (filter (\<lambda>a. category_id a = cat_id c \<and> is_active a
                                    \<and> utcnow w - 604800000000 \<le> published_at a)
                           (articles db)))
           (categories db)"
proof (intro conjI allI impI ballI)
  fix a
  assume "a \<in> set (pg_items (index w db page_arg source_arg))"
  then have "a \<in> set (filter (\<lambda>a. published_at a \<ge> seven_days_ago w)
                        (filter is_active (articles db)))"
    unfolding index_def Let_def by (rule in_listing)
  then show "utcnow w - 604800000000 \<le> published_at a" "is_active a" "a \<in> set (articles db)"
    by (simp_all add: seven_days_ago_value)
next
  fix p a
  assume h: "category_news w db name page_arg source_arg = Some p"
    and a: "a \<in> set (pg_items p)"
  from h obtain cat where f: "find (\<lambda>c. cat_name c = name) (categories db) = Some cat"
    unfolding category_news_def
    by (cases "find (\<lambda>c. cat_name c = name) (categories db)") simp_all
  from h have p: "p = paginate (order_by_published_desc (filter_source source_arg
       (filter (\<lambda>a. published_at a \<ge> seven_days_ago w)
          (filter (\<lambda>a. category_id a = cat_id cat \<and> is_active a) (articles db)))))
       (case page_arg of Some p \<Rightarrow> p | None \<Rightarrow> 1) 20"
    unfolding category_news_def Let_def f by (auto simp del: filter_filter)
  from a [unfolded p]
  have "a \<in> set (filter (\<lambda>a. published_at a \<ge> seven_days_ago w)
          (filter (\<lambda>a. category_id a = cat_id cat \<and> is_active a) (articles db)))"
    by (rule in_listing)
  then show "utcnow w - 604800000000 \<le> published_at a" "is_active a" "a \<in> set (articles db)"
    by (simp_all add: seven_days_ago_value)
next
  fix a
  assume "a \<in> set (pg_items (api_news w db page_arg per_page_arg))"
  then have "a \<in> set (filter (\<lambda>a. published_at a \<ge> seven_days_ago w)
                        (filter is_active (articles db)))"
    unfolding api_news_def Let_def by (rule in_listing_plain)
  then show "utcnow w - 604800000000 \<le> published_at a" "is_active a" "a \<in> set (articles db)"
    by (simp_all add: seven_days_ago_value)
next
  fix p a
  assume h: "api_category_news w db name page_arg per_page_arg = Some p"
    and a: "a \<in> set (pg_items p)"
  from h obtain cat where f: "find (\<lambda>c. cat_name c = name) (categories db) = Some cat"
    unfolding api_category_news_def
    by (cases "find (\<lambda>c. cat_name c = name) (categories db)") simp_all
  from h have p: "p = paginate (order_by_published_desc
       (filter (\<lambda>a. published_at a \<ge> seven_days_ago w)
          (filter (\<lambda>a. category_id a = cat_id cat \<and> is_active a) (articles db))))
       (case page_arg of Some p \<Rightarrow> p | None \<Rightarrow> 1)
       (min (case per_page_arg of Some p \<Rightarrow> p | None \<Rightarrow> 20) 100)"
    unfolding api_category_news_def Let_def f by (auto simp del: filter_filter)
  from a [unfolded p]
  have "a \<in> set (filter (\<lambda>a. published_at a \<ge> seven_days_ago w)
          (filter (\<lambda>a. category_id a = cat_id cat \<and> is_active a) (articles db)))"
    by (rule in_listing_plain)
  then show "utcnow w - 604800000000 \<le> published_at a" "is_active a" "a \<in> set (articles db)"
    by (simp_all add: seven_days_ago_value)
next
  show "pg_total (api_news w db page_arg per_page_arg) =
       length (filter (\<lambda>a. is_active a \<and> utcnow w - 604800000000 \<le> published_at a)
                 (articles db))"
    by (simp add: api_news_def Let_def paginate_def order_by_published_desc_def
          seven_days_ago_value conj_ac)
next
  show "total_articles (api_stats w db) =
       length (filter (\<lambda>a. is_active a \<and> utcnow w - 604800000000 \<le> published_at a)
                 (articles db))"
    by (simp add: api_stats_def seven_days_ago_value)
next
  show "map (\<lambda>(n, d, k). k) (stats_categories (api_stats w db)) =
       map (\<lambda>c. length (filter (\<lambda>a. category_id a = cat_id c \<and> is_active a
                                    \<and> utcnow w - 604800000000 \<le> published_at a)
                           (articles db)))
           (categories db)"
    by (simp add: api_stats_def seven_days_ago_value comp_def conj_ac)
qed

theorem read_side_seven_day_window_witness:
  "articles ex_db_read = [ex_article_old, ex_article_a]
   \<and> is_active ex_article_old
   \<and> published_at ex_article_old < utcnow ex_world - 604800000000
   \<and> pg_items (index ex_world ex_db_read None None) = [ex_article_a]
   \<and> utcnow ex_world - 604800000000 \<le> published_at ex_article_a
   \<and> pg_items (api_news ex_world ex_db_read None (Some 100)) = [ex_article_a]
   \<and> category_news ex_world ex_db_read (u ''tech'') None None =
       Some \<lparr> pg_items = [ex_article_a], pg_page = 1, pg_per_page = 20, pg_total = 1 \<rparr>
   \<and> total_articles (api_stats ex_world ex_db_read) = 1
   \<and> map (\<lambda>(n, d, k). k) (stats_categories (api_stats ex_world ex_db_read)) = [1]"
proof -
  note t = read_side_seven_day_window
    [where w = ex_world and db = ex_db_read and page_arg = None and source_arg = None]
  have d: "articles ex_db_read = [ex_article_old, ex_article_a]"
    "categories ex_db_read = [ex_category]"
    by (simp_all add: ex_db_read_def)
  have o: "is_active ex_article_old" "published_at ex_article_old = 63844000000000000"
    "category_id ex_article_old = 7"
    by (simp_all add: ex_article_old_def)
  have a: "is_active ex_article_a" "published_at ex_article_a = 63844893015000000"
    "category_id ex_article_a = 7"
    by (simp_all add: ex_article_a_def)
  have n: "utcnow ex_world = 63845000000000000" by (simp add: ex_world_def)
  have i: "pg_items (index ex_world ex_db_read None None) = [ex_article_a]"
    by (simp add: index_def Let_def seven_days_ago_value d o a n
          order_by_published_desc_def paginate_def)
  have j: "pg_items (api_news ex_world ex_db_read None (Some 100)) = [ex_article_a]"
    by (simp add: api_news_def Let_def seven_days_ago_value d o a n
          order_by_published_desc_def paginate_def)
  have k: "category_news ex_world ex_db_read (u ''tech'') None None =
       Some \<lparr> pg_items = [ex_article_a], pg_page = 1, pg_per_page = 20, pg_total = 1 \<rparr>"
    by (simp add: category_news_def Let_def seven_days_ago_value d o a n
          order_by_published_desc_def paginate_def ex_category_def)
  from t i have w: "utcnow ex_world - 604800000000 \<le> published_at ex_article_a"
    by simp
  from t have s: "total_articles (api_stats ex_world ex_db_read) = 1"
    and c: "map (\<lambda>(n, d, k). k) (stats_categories (api_stats ex_world ex_db_read)) = [1]"
    by (simp_all add: d o a n ex_category_def)
  show ?thesis using d(1) o(1,2) n i w j k s c by simp
qed


text \<open>
  The claim as the specification words it fails: the window is not bounded by the time
  of the query. An active article dated after the clock is listed by every route and
  counted by the statistics.
\<close>

theorem future_article_is_listed_counterexample:
  "articles ex_db_future = [ex_article_future]
   \<and> utcnow ex_world = 63845000000000000
   \<and> published_at ex_article_future = 63846000000000000
   \<and> utcnow ex_world < published_at ex_article_future
   \<and> pg_items (index ex_world ex_db_future None None) = [ex_article_future]
   \<and> pg_items (api_news ex_world ex_db_future None None) = [ex_article_future]
   \<and> category_news ex_world ex_db_future (u ''tech'') None None =
       Some \<lparr> pg_items = [ex_article_future], pg_page = 1, pg_per_page = 20, pg_total = 1 \<rparr>
   \<and> api_category_news ex_world ex_db_future (u ''tech'') None None =
       Some \<lparr> pg_items = [ex_article_future], pg_page = 1, pg_per_page = 20, pg_total = 1 \<rparr>
   \<and> total_articles (api_stats ex_world ex_db_future) = 1
   \<and> map (\<lambda>(n, d, k). k) (stats_categories (api_stats ex_world ex_db_future)) = [1]"
proof -
  have d: "articles ex_db_future = [ex_article_future]"
    "categories ex_db_future = [ex_category]"
    by (simp_all add: ex_db_future_def)
  have a: "is_active ex_article_future" "published_at ex_article_future = 63846000000000000"
    "category_id ex_article_future = 7"
    by (simp_all add: ex_article_future_def)
  have n: "utcnow ex_world = 63845000000000000" by (simp add: ex_world_def)
  have i: "pg_items (index ex_world ex_db_future None None) = [ex_article_future]"
    by (simp add: index_def Let_def seven_days_ago_value d a n filter_source_def
          order_by_published_desc_def paginate_def)
  have j: "pg_items (api_news ex_world ex_db_future None None) = [ex_article_future]"
    by (simp add: api_news_def Let_def seven_days_ago_value d a n
          order_by_published_desc_def paginate_def)
  have k: "category_news ex_world ex_db_future (u ''tech'') None None =
       Some \<lparr> pg_items = [ex_article_future], pg_page = 1, pg_per_page = 20, pg_total = 1 \<rparr>"
    by (simp add: category_news_def Let_def seven_days_ago_value d a n filter_source_def
          order_by_published_desc_def paginate_def ex_category_def)
  have l: "api_category_news ex_world ex_db_future (u ''tech'') None None =
       Some \<lparr> pg_items = [ex_article_future], pg_page = 1, pg_per_page = 20, pg_total = 1 \<rparr>"
    by (simp add: api_category_news_def Let_def seven_days_ago_value d a n
          order_by_published_desc_def paginate_def ex_category_def)
  have s: "total_articles (api_stats ex_world ex_db_future) = 1"
    and c: "map (\<lambda>(n, d, k). k) (stats_categories (api_stats ex_world ex_db_future)) = [1]"
    by (simp_all add: api_stats_def seven_days_ago_value d a n ex_category_def)
  show ?thesis using d(1) a(2) n i j k l s c by simp
qed


text \<open>
  Claim C8. A candidate article whose link the lookup does not find is staged, whatever
  the text extraction does, and the loop goes on with the next candidate. Its content is
  absent when the extraction raised (network or parse error) or gave the empty string,
  and the first 5000 characters of the extracted text otherwise. For the whole cycle:
  the rows it adds to the article table come after the rows that were there, and each
  has the content just described for its link; the articles of the table after the
  cycle, their content set aside, the update-log rows, and whether the cycle ends with
  an exception are the same whatever the extraction returns for any link; and when no
  lookup fails and the commit succeeds, every article fetched from an active source whose
  link was not in the table is in the table after the cycle, with that content.
\<close>

theorem enrichment_is_best_effort:
  "(article_query_first w db sess src (ad_link d) = Inr None \<longrightarrow>
      stage_articles w db src (d # ds) sess n =
        stage_articles w db src ds
          (sess\<lparr>pending_articles := pending_articles sess
                   @ [make_article d (staged_content w (ad_link d))]\<rparr>) (n + 1))
   \<and> content (make_article d (staged_content w (ad_link d))) = staged_content w (ad_link d)
   \<and> link (make_article d (staged_content w (ad_link d))) = ad_link d
   \<and> staged_content w l =
       (case newspaper_text w l of
          None \<Rightarrow> None
        | Some t \<Rightarrow> if t = [] then None else Some (take 5000 t))
   \<and> (\<forall>t. staged_content w l = Some t \<longrightarrow> length t \<le> 5000)
   \<and> extract_article_content w l = map_option (take 5000) (newspaper_text w l)
   \<and> take (length (articles db)) (articles (update_news w db)) = articles db
   \<and> (\<forall>a\<in>set (drop (length (articles db)) (articles (update_news w db))).
         content a = staged_content w (link a))
   \<and> map without_content (articles (update_news (w\<lparr>newspaper_text := nt\<rparr>) db))
       = map without_content (articles (update_news w db))
   \<and> update_logs (update_news (w\<lparr>newspaper_text := nt\<rparr>) db)
       = update_logs (update_news w db)
   \<and> update_news_raises (w\<lparr>newspaper_text := nt\<rparr>) db = update_news_raises w db
   \<and> (commit_ok w \<longrightarrow> (\<forall>s k. query_error w s k = None) \<longrightarrow>
        (\<forall>s\<in>set (active_sources db). \<forall>x\<in>set (fetch_rss_feed w s).
           ad_link x \<notin> link ` set (articles db) \<longrightarrow>
           (\<exists>a\<in>set (articles (update_news w db)).
              link a = ad_link x \<and> content a = staged_content w (ad_link x))))"
proof -
  have c1: "article_query_first w db sess src (ad_link d) = Inr None \<longrightarrow>
      stage_articles w db src (d # ds) sess n =
        stage_articles w db src ds
          (sess\<lparr>pending_articles := pending_articles sess
                   @ [make_article d (staged_content w (ad_link d))]\<rparr>) (n + 1)"
    by (simp add: Let_def staged_content_def)
  have c2: "content (make_article d (staged_content w (ad_link d))) = staged_content w (ad_link d)"
    and c3: "link (make_article d (staged_content w (ad_link d))) = ad_link d"
    by (simp_all add: make_article_def)
  note c4 = staged_content_cases [of w l]
  have c5: "\<forall>t. staged_content w l = Some t \<longrightarrow> length t \<le> 5000"
    by (auto simp: staged_content_cases split: option.splits if_splits)
  note c6 = extract_article_content_take [of w l]
  have new: "take (length (articles db)) (articles (update_news w db)) = articles db
    \<and> (\<forall>a\<in>set (drop (length (articles db)) (articles (update_news w db))).
         content a = staged_content w (link a))"
  proof (cases "run_sources w db (active_sources db) empty_session")
    case (Inl x)
    then show ?thesis by (simp add: update_news_tables)
  next
    case (Inr sess')
    from run_sources_content [OF Inr]
    have "\<forall>a\<in>set (pending_articles sess'). content a = staged_content w (link a)"
      by simp
    then show ?thesis using Inr by (simp add: update_news_tables)
  qed
  note ind = update_news_newspaper_text [where w = w and nt = nt and db = db]
  have cov: "\<exists>a\<in>set (articles (update_news w db)).
              link a = ad_link x \<and> content a = staged_content w (ad_link x)"
    if ok: "commit_ok w" and q: "\<forall>s k. query_error w s k = None"
      and s: "s \<in> set (active_sources db)" and x: "x \<in> set (fetch_rss_feed w s)"
      and fresh: "ad_link x \<notin> link ` set (articles db)" for s x
  proof -
    from run_sources_covers [OF q, of db "active_sources db" empty_session]
    obtain sess' where r: "run_sources w db (active_sources db) empty_session = Inr sess'"
      and cv: "\<forall>src\<in>set (active_sources db).
                 ad_link ` set (fetch_rss_feed w src) \<subseteq> stored_links db sess'"
      by blast
    from cv s x have "ad_link x \<in> stored_links db sess'" by blast
    with fresh obtain a where a: "a \<in> set (pending_articles sess')" "link a = ad_link x"
      by (auto simp: stored_links_def)
    from run_sources_content [OF r] a(1)
    have "content a = staged_content w (link a)" by simp
    moreover have "a \<in> set (articles (update_news w db))"
      using r ok a(1) by (simp add: update_news_tables)
    ultimately show ?thesis using a(2) by auto
  qed
  show ?thesis
    using c1 c2 c3 c4 c5 c6 new ind cov by (intro conjI) blast+
qed

theorem enrichment_is_best_effort_witness:
  "commit_ok ex_world
   \<and> articles ex_db = []
   \<and> set (active_sources ex_db) = {ex_source, ex_source_down}
   \<and> fetch_rss_feed ex_world ex_source = [ex_data_a, ex_data_b]
   \<and> newspaper_text ex_world (ad_link ex_data_a) = Some (u ''body'')
   \<and> newspaper_text ex_world (ad_link ex_data_b) = None
   \<and> staged_content ex_world (ad_link ex_data_a) = Some (u ''body'')
   \<and> staged_content ex_world (ad_link ex_data_b) = None
   \<and> article_query_first ex_world ex_db empty_session ex_source (ad_link ex_data_b) = Inr None
   \<and> stage_articles ex_world ex_db ex_source [ex_data_b] empty_session 0 =
       (\<lparr> pending_articles = [ex_article_b], pending_logs = [] \<rparr>, Inr 1)
   \<and> articles (update_news ex_world ex_db) = [ex_article_a, ex_article_b]
   \<and> link ex_article_b = ad_link ex_data_b
   \<and> content ex_article_b = None
   \<and> content ex_article_a = Some (u ''body'')
   \<and> map link (articles (update_news (ex_world\<lparr>newspaper_text := (\<lambda>l. None)\<rparr>) ex_db))
       = [u ''a'', u ''b'']"
proof -
  note t = enrichment_is_best_effort
    [where w = ex_world and db = ex_db and sess = empty_session and src = ex_source
       and d = ex_data_b and ds = "[]" and n = 0 and nt = "\<lambda>l. None"]
  have db: "articles ex_db = []" by (simp add: ex_db_def)
  have act: "set (active_sources ex_db) = {ex_source, ex_source_down}"
    by (simp add: ex_active)
  have q: "\<forall>s k. query_error ex_world s k = None" by (simp add: ex_world_def)
  from t [where l = "ad_link ex_data_a"] ex_text(1)
  have sa: "staged_content ex_world (ad_link ex_data_a) = Some (u ''body'')"
    by (simp add: u_def)
  from t [where l = "ad_link ex_data_b"] ex_text(2)
  have sb: "staged_content ex_world (ad_link ex_data_b) = None"
    by simp
  from t [where l = "[]"] ex_query_b
  have "stage_articles ex_world ex_db ex_source [ex_data_b] empty_session 0 =
        stage_articles ex_world ex_db ex_source []
          (empty_session\<lparr>pending_articles := pending_articles empty_session @
             [make_article ex_data_b (staged_content ex_world (ad_link ex_data_b))]\<rparr>) (0 + 1)"
    by blast
  then have st: "stage_articles ex_world ex_db ex_source [ex_data_b] empty_session 0 =
       (\<lparr> pending_articles = [ex_article_b], pending_logs = [] \<rparr>, Inr 1)"
    unfolding sb
    by (simp add: make_article_def ex_data_b_def ex_article_b_def empty_session_def)
  have un: "articles (update_news ex_world ex_db) = [ex_article_a, ex_article_b]"
    by (simp add: update_news_tables ex_run ex_commit db)
  have lk: "link ex_article_a = u ''a''" "link ex_article_b = u ''b''"
    "link ex_article_b = ad_link ex_data_b"
    by (simp_all add: ex_article_a_def ex_article_b_def ex_data_b_def)
  from t [where l = "[]"] un db
  have "\<forall>a\<in>set [ex_article_a, ex_article_b]. content a = staged_content ex_world (link a)"
    by simp
  then have ca: "content ex_article_a = Some (u ''body'')" and cb: "content ex_article_b = None"
    using sa sb by (simp_all add: lk ex_links)
  from t [where l = "[]"]
  have "map without_content (articles (update_news (ex_world\<lparr>newspaper_text := (\<lambda>l. None)\<rparr>) ex_db))
          = map without_content (articles (update_news ex_world ex_db))"
    by blast
  then have "map link (map without_content
               (articles (update_news (ex_world\<lparr>newspaper_text := (\<lambda>l. None)\<rparr>) ex_db)))
          = map link (map without_content (articles (update_news ex_world ex_db)))"
    by (simp only:)
  then have ind: "map link (articles (update_news (ex_world\<lparr>newspaper_text := (\<lambda>l. None)\<rparr>) ex_db))
          = [u ''a'', u ''b'']"
    by (simp add: un lk comp_def)
  show ?thesis
    using ex_commit db act ex_fetch ex_text sa sb ex_query_b st un lk(3) ca cb ind by simp
qed


text \<open>
  Claim C6, as the code has it. The first non-empty one of the media-content list, the
  thumbnail list and the enclosure list is the only one of the three that is read. A
  non-empty media-content list gives the URL of its first element whose type starts with
  \<^verbatim>\<open>image/\<close>, and the URL of its first element when no element has such a type or when
  that URL is empty. Without media content, a non-empty thumbnail list gives the URL of
  its first element. Without both, the enclosures give the \<^verbatim>\<open>href\<close> of the first one whose
  type starts with \<^verbatim>\<open>image/\<close>. When the element so chosen has no \<^verbatim>\<open>url\<close> (no \<^verbatim>\<open>href\<close>), the
  search ends there: the entry has no image (the empty string, if an empty URL had been
  read before), whatever the other fields and the markup hold. When the field that was
  read gave no URL or an empty one, or all three are empty, the markup (the value of the
  first content element, or the summary when there is no content) is scanned and the
  first \<^verbatim>\<open>img\<close> whose \<^verbatim>\<open>src\<close> starts with \<^verbatim>\<open>http\<close> or with \<^verbatim>\<open>/\<close> gives the image; with no
  such tag, with no markup, or with a first content element that has no value, the image
  stays as it was (none, or the empty string). The URL found is then checked: one that
  starts with \<^verbatim>\<open>//\<close> gets \<^verbatim>\<open>https:\<close> in front, one that starts with a single \<^verbatim>\<open>/\<close> gets the
  scheme and the host of the source's site in front, or stays as it is when the URL of
  the site cannot be parsed, and every other one stays as it is.
\<close>

theorem image_url_resolution:
  "(\<forall>pre m post x.
      e_media_content e = pre @ m # post \<longrightarrow> (\<forall>p\<in>set pre. \<not> is_image_media p) \<longrightarrow>
      is_image_media m \<longrightarrow> media_url m = Some x \<longrightarrow> x \<noteq> [] \<longrightarrow>
      entry_image_url w src e = checked_image_url w src (Some x))
   \<and> (\<forall>m rest x.
      e_media_content e = m # rest \<longrightarrow> (\<forall>p\<in>set (m # rest). \<not> is_image_media p) \<longrightarrow>
      media_url m = Some x \<longrightarrow> x \<noteq> [] \<longrightarrow>
      entry_image_url w src e = checked_image_url w src (Some x))
   \<and> (\<forall>m rest x.
      e_media_content e = [] \<longrightarrow> e_media_thumbnail e = m # rest \<longrightarrow>
      media_url m = Some x \<longrightarrow> x \<noteq> [] \<longrightarrow>
      entry_image_url w src e = checked_image_url w src (Some x))
   \<and> (\<forall>pre c post x.
      e_media_content e = [] \<longrightarrow> e_media_thumbnail e = [] \<longrightarrow>
      e_enclosures e = pre @ c # post \<longrightarrow> (\<forall>p\<in>set pre. \<not> is_image_enclosure p) \<longrightarrow>
      is_image_enclosure c \<longrightarrow> enc_href c = Some x \<longrightarrow> x \<noteq> [] \<longrightarrow>
      entry_image_url w src e = checked_image_url w src (Some x))
   \<and> (\<forall>c pre x post.
      e_media_content e = [] \<longrightarrow> e_media_thumbnail e = [] \<longrightarrow>
      (\<forall>c\<in>set (e_enclosures e). \<not> is_image_enclosure c) \<longrightarrow>
      content_to_search e = Inr c \<longrightarrow> c \<noteq> [] \<longrightarrow>
      find_img_srcs w c = pre @ Some x # post \<longrightarrow> (\<forall>p\<in>set pre. \<not> usable_src p) \<longrightarrow>
      usable_src (Some x) \<longrightarrow>
      entry_image_url w src e = checked_image_url w src (Some x))
   \<and> (\<forall>c.
      e_media_content e = [] \<longrightarrow> e_media_thumbnail e = [] \<longrightarrow>
      (\<forall>c\<in>set (e_enclosures e). \<not> is_image_enclosure c) \<longrightarrow>
      content_to_search e = Inr c \<longrightarrow> (\<forall>p\<in>set (find_img_srcs w c). \<not> usable_src p) \<longrightarrow>
      entry_image_url w src e = None)
   \<and> (\<forall>c rest. e_content e = Some c # rest \<longrightarrow> content_to_search e = Inr c)
   \<and> (\<forall>c. e_content e = [] \<longrightarrow> e_summary e = Some c \<longrightarrow> content_to_search e = Inr c)
   \<and> (\<forall>x. startswith x (u ''//'') \<longrightarrow>
          checked_image_url w src (Some x) = Some (u ''https:'' @ x))
   \<and> (\<forall>x scheme netloc.
          startswith x (u ''/'') \<longrightarrow> \<not> startswith x (u ''//'') \<longrightarrow>
          urlparse w (src_url src) = Some (scheme, netloc) \<longrightarrow>
          checked_image_url w src (Some x) = Some (scheme @ u ''://'' @ netloc @ x))
   \<and> (\<forall>x. startswith x (u ''http'') \<longrightarrow> checked_image_url w src (Some x) = Some x)
   \<and> (\<forall>pre m post.
      e_media_content e = pre @ m # post \<longrightarrow> (\<forall>p\<in>set pre. \<not> is_image_media p) \<longrightarrow>
      is_image_media m \<longrightarrow> media_url m = None \<longrightarrow>
      entry_image_url w src e = None)
   \<and> (e_media_content e \<noteq> [] \<longrightarrow> (\<forall>p\<in>set (e_media_content e). \<not> is_image_media p) \<longrightarrow>
      media_url (hd (e_media_content e)) = None \<longrightarrow>
      entry_image_url w src e = None)
   \<and> (e_media_content e = [] \<longrightarrow> e_media_thumbnail e \<noteq> [] \<longrightarrow>
      media_url (hd (e_media_thumbnail e)) = None \<longrightarrow>
      entry_image_url w src e = None)
   \<and> (\<forall>pre c post.
      e_media_content e = [] \<longrightarrow> e_media_thumbnail e = [] \<longrightarrow>
      e_enclosures e = pre @ c # post \<longrightarrow> (\<forall>p\<in>set pre. \<not> is_image_enclosure p) \<longrightarrow>
      is_image_enclosure c \<longrightarrow> enc_href c = None \<longrightarrow>
      entry_image_url w src e = None)
   \<and> (\<forall>pre m post.
      e_media_content e = pre @ m # post \<longrightarrow> (\<forall>p\<in>set pre. \<not> is_image_media p) \<longrightarrow>
      is_image_media m \<longrightarrow>
      structured_image e =
        (case media_url m of
           None \<Rightarrow> Inl (KeyError, None)
         | Some x \<Rightarrow>
             if x \<noteq> [] then Inr (Some x)
             else (case media_url (hd (e_media_content e)) of
                     None \<Rightarrow> Inl (KeyError, Some [])
                   | Some y \<Rightarrow> Inr (Some y))))
   \<and> (e_media_content e \<noteq> [] \<longrightarrow> (\<forall>p\<in>set (e_media_content e). \<not> is_image_media p) \<longrightarrow>
      structured_image e =
        (case media_url (hd (e_media_content e)) of
           None \<Rightarrow> Inl (KeyError, None)
         | Some y \<Rightarrow> Inr (Some y)))
   \<and> (e_media_content e = [] \<longrightarrow> e_media_thumbnail e \<noteq> [] \<longrightarrow>
      structured_image e =
        (case media_url (hd (e_media_thumbnail e)) of
           None \<Rightarrow> Inl (KeyError, None)
         | Some y \<Rightarrow> Inr (Some y)))
   \<and> (\<forall>pre c post.
      e_media_content e = [] \<longrightarrow> e_media_thumbnail e = [] \<longrightarrow>
      e_enclosures e = pre @ c # post \<longrightarrow> (\<forall>p\<in>set pre. \<not> is_image_enclosure p) \<longrightarrow>
      is_image_enclosure c \<longrightarrow>
      structured_image e =
        (case enc_href c of
           None \<Rightarrow> Inl (AttributeError, None)
         | Some h \<Rightarrow> Inr (Some h)))
   \<and> (e_media_content e = [] \<longrightarrow> e_media_thumbnail e = [] \<longrightarrow>
      (\<forall>c\<in>set (e_enclosures e). \<not> is_image_enclosure c) \<longrightarrow>
      structured_image e = Inr None)
   \<and> (\<forall>x img. structured_image e = Inl (x, img) \<longrightarrow> entry_image_url w src e = img)
   \<and> (\<forall>x. structured_image e = Inr (Some x) \<longrightarrow> x \<noteq> [] \<longrightarrow>
          entry_image_url w src e = checked_image_url w src (Some x))
   \<and> (\<forall>f c pre s post.
      structured_image e = Inr f \<longrightarrow> \<not> truthy f \<longrightarrow>
      content_to_search e = Inr c \<longrightarrow> c \<noteq> [] \<longrightarrow>
      find_img_srcs w c = pre @ Some s # post \<longrightarrow> (\<forall>p\<in>set pre. \<not> usable_src p) \<longrightarrow>
      usable_src (Some s) \<longrightarrow>
      entry_image_url w src e = checked_image_url w src (Some s))
   \<and> (\<forall>f c.
      structured_image e = Inr f \<longrightarrow> \<not> truthy f \<longrightarrow>
      content_to_search e = Inr c \<longrightarrow> (\<forall>p\<in>set (find_img_srcs w c). \<not> usable_src p) \<longrightarrow>
      entry_image_url w src e = f)
   \<and> (\<forall>f.
      structured_image e = Inr f \<longrightarrow> \<not> truthy f \<longrightarrow> content_to_search e = Inr [] \<longrightarrow>
      entry_image_url w src e = f)
   \<and> (\<forall>f x.
      structured_image e = Inr f \<longrightarrow> \<not> truthy f \<longrightarrow> content_to_search e = Inl x \<longrightarrow>
      entry_image_url w src e = f)
   \<and> (\<forall>rest. e_content e = None # rest \<longrightarrow> content_to_search e = Inl AttributeError)
   \<and> (e_content e = [] \<longrightarrow> e_summary e = None \<longrightarrow> content_to_search e = Inr [])
   \<and> (\<forall>x. startswith x (u ''/'') \<longrightarrow> \<not> startswith x (u ''//'') \<longrightarrow>
          urlparse w (src_url src) = None \<longrightarrow>
          checked_image_url w src (Some x) = Some x)
   \<and> (\<forall>x. \<not> startswith x (u ''/'') \<longrightarrow> checked_image_url w src (Some x) = Some x)
   \<and> checked_image_url w src None = None"
proof (intro conjI allI impI)
  fix pre m post x
  assume "e_media_content e = pre @ m # post" "\<forall>p\<in>set pre. \<not> is_image_media p"
    "is_image_media m" "media_url m = Some x" "x \<noteq> []"
  then show "entry_image_url w src e = checked_image_url w src (Some x)"
    by (rule image_from_media_type)
next
  fix m rest x
  assume "e_media_content e = m # rest" "\<forall>p\<in>set (m # rest). \<not> is_image_media p"
    "media_url m = Some x" "x \<noteq> []"
  then show "entry_image_url w src e = checked_image_url w src (Some x)"
    by (rule image_from_first_media)
next
  fix m rest x
  assume "e_media_content e = []" "e_media_thumbnail e = m # rest"
    "media_url m = Some x" "x \<noteq> []"
  then show "entry_image_url w src e = checked_image_url w src (Some x)"
    by (rule image_from_thumbnail)
next
  fix pre c post x
  assume "e_media_content e = []" "e_media_thumbnail e = []"
    "e_enclosures e = pre @ c # post" "\<forall>p\<in>set pre. \<not> is_image_enclosure p"
    "is_image_enclosure c" "enc_href c = Some x" "x \<noteq> []"
  then show "entry_image_url w src e = checked_image_url w src (Some x)"
    by (rule image_from_enclosure)
next
  fix c pre x post
  assume "e_media_content e = []" "e_media_thumbnail e = []"
    "\<forall>c\<in>set (e_enclosures e). \<not> is_image_enclosure c"
    "content_to_search e = Inr c" "c \<noteq> []" "find_img_srcs w c = pre @ Some x # post"
    "\<forall>p\<in>set pre. \<not> usable_src p" "usable_src (Some x)"
  then show "entry_image_url w src e = checked_image_url w src (Some x)"
    by (rule image_from_markup)
next
  fix c
  assume "e_media_content e = []" "e_media_thumbnail e = []"
    "\<forall>c\<in>set (e_enclosures e). \<not> is_image_enclosure c"
    "content_to_search e = Inr c" "\<forall>p\<in>set (find_img_srcs w c). \<not> usable_src p"
  then show "entry_image_url w src e = None"
    by (rule no_image)
next
  fix c rest
  assume "e_content e = Some c # rest"
  then show "content_to_search e = Inr c"
    by (simp add: content_to_search_def)
next
  fix c
  assume "e_content e = []" "e_summary e = Some c"
  then show "content_to_search e = Inr c"
    by (simp add: content_to_search_def)
next
  fix x
  assume "startswith x (u ''//'')"
  then show "checked_image_url w src (Some x) = Some (u ''https:'' @ x)"
    by (rule checked_protocol_relative)
next
  fix x scheme netloc
  assume "startswith x (u ''/'')" "\<not> startswith x (u ''//'')"
    "urlparse w (src_url src) = Some (scheme, netloc)"
  then show "checked_image_url w src (Some x) = Some (scheme @ u ''://'' @ netloc @ x)"
    by (rule checked_root_relative)
next
  fix x
  assume "startswith x (u ''http'')"
  then show "checked_image_url w src (Some x) = Some x"
    by (simp add: checked_other)
next
  fix pre m post
  assume "e_media_content e = pre @ m # post" "\<forall>p\<in>set pre. \<not> is_image_media p"
    "is_image_media m" and n: "media_url m = None"
  from structured_media_image [OF this(1-3)] n
  have "structured_image e = Inl (KeyError, None)" by simp
  then show "entry_image_url w src e = None" by (rule image_when_raised)
next
  assume "e_media_content e \<noteq> []" "\<forall>p\<in>set (e_media_content e). \<not> is_image_media p"
    and n: "media_url (hd (e_media_content e)) = None"
  from structured_media_first [OF this(1,2)] n
  have "structured_image e = Inl (KeyError, None)" by simp
  then show "entry_image_url w src e = None" by (rule image_when_raised)
next
  assume "e_media_content e = []" "e_media_thumbnail e \<noteq> []"
    and n: "media_url (hd (e_media_thumbnail e)) = None"
  from structured_thumbnail [OF this(1,2)] n
  have "structured_image e = Inl (KeyError, None)" by simp
  then show "entry_image_url w src e = None" by (rule image_when_raised)
next
  fix pre c post
  assume "e_media_content e = []" "e_media_thumbnail e = []"
    "e_enclosures e = pre @ c # post" "\<forall>p\<in>set pre. \<not> is_image_enclosure p"
    "is_image_enclosure c" and n: "enc_href c = None"
  from structured_enclosure [OF this(1-5)] n
  have "structured_image e = Inl (AttributeError, None)" by simp
  then show "entry_image_url w src e = None" by (rule image_when_raised)
next
  fix pre m post
  assume "e_media_content e = pre @ m # post" "\<forall>p\<in>set pre. \<not> is_image_media p"
    "is_image_media m"
  then show "structured_image e =
        (case media_url m of
           None \<Rightarrow> Inl (KeyError, None)
         | Some x \<Rightarrow>
             if x \<noteq> [] then Inr (Some x)
             else (case media_url (hd (e_media_content e)) of
                     None \<Rightarrow> Inl (KeyError, Some [])
                   | Some y \<Rightarrow> Inr (Some y)))"
    by (rule structured_media_image)
next
  assume "e_media_content e \<noteq> []" "\<forall>p\<in>set (e_media_content e). \<not> is_image_media p"
  then show "structured_image e =
        (case media_url (hd (e_media_content e)) of
           None \<Rightarrow> Inl (KeyError, None)
         | Some y \<Rightarrow> Inr (Some y))"
    by (rule structured_media_first)
next
  assume "e_media_content e = []" "e_media_thumbnail e \<noteq> []"
  then show "structured_image e =
        (case media_url (hd (e_media_thumbnail e)) of
           None \<Rightarrow> Inl (KeyError, None)
         | Some y \<Rightarrow> Inr (Some y))"
    by (rule structured_thumbnail)
next
  fix pre c post
  assume "e_media_content e = []" "e_media_thumbnail e = []"
    "e_enclosures e = pre @ c # post" "\<forall>p\<in>set pre. \<not> is_image_enclosure p"
    "is_image_enclosure c"
  then show "structured_image e =
        (case enc_href c of
           None \<Rightarrow> Inl (AttributeError, None)
         | Some h \<Rightarrow> Inr (Some h))"
    by (rule structured_enclosure)
next
  assume "e_media_content e = []" "e_media_thumbnail e = []"
    "\<forall>c\<in>set (e_enclosures e). \<not> is_image_enclosure c"
  then show "structured_image e = Inr None"
    by (rule structured_none)
next
  fix x img
  assume "structured_image e = Inl (x, img)"
  then show "entry_image_url w src e = img" by (rule image_when_raised)
next
  fix x
  assume "structured_image e = Inr (Some x)" "x \<noteq> []"
  then show "entry_image_url w src e = checked_image_url w src (Some x)"
    by (rule image_when_found)
next
  fix f c pre s post
  assume "structured_image e = Inr f" "\<not> truthy f" "content_to_search e = Inr c" "c \<noteq> []"
    "find_img_srcs w c = pre @ Some s # post" "\<forall>p\<in>set pre. \<not> usable_src p"
    "usable_src (Some s)"
  then show "entry_image_url w src e = checked_image_url w src (Some s)"
    by (rule image_when_scanned)
next
  fix f c
  assume "structured_image e = Inr f" "\<not> truthy f" "content_to_search e = Inr c"
    "\<forall>p\<in>set (find_img_srcs w c). \<not> usable_src p"
  then show "entry_image_url w src e = f"
    by (rule image_when_no_img)
next
  fix f
  assume "structured_image e = Inr f" "\<not> truthy f" "content_to_search e = Inr []"
  then show "entry_image_url w src e = f"
    by (rule image_when_no_markup)
next
  fix f x
  assume "structured_image e = Inr f" "\<not> truthy f" "content_to_search e = Inl x"
  then show "entry_image_url w src e = f"
    by (rule image_when_scan_raised)
next
  fix rest
  assume "e_content e = None # rest"
  then show "content_to_search e = Inl AttributeError"
    by (simp add: content_to_search_def)
next
  assume "e_content e = []" "e_summary e = None"
  then show "content_to_search e = Inr []"
    by (simp add: content_to_search_def)
next
  fix x
  assume "startswith x (u ''/'')" "\<not> startswith x (u ''//'')" "urlparse w (src_url src) = None"
  then show "checked_image_url w src (Some x) = Some x"
    by (rule checked_unparsed_site)
next
  fix x
  assume "\<not> startswith x (u ''/'')"
  then show "checked_image_url w src (Some x) = Some x"
    by (simp add: checked_other)
next
  show "checked_image_url w src None = None"
    by (simp add: checked_image_url_def fix_image_url_def)
qed

theorem image_url_resolution_witness:
  "e_media_content ex_entry_a = [ex_media_video, ex_media_image]
   \<and> \<not> is_image_media ex_media_video
   \<and> is_image_media ex_media_image
   \<and> media_url ex_media_image = Some (u ''//cdn.example.com/a.jpg'')
   \<and> entry_image_url ex_world ex_source ex_entry_a = Some (u ''https://cdn.example.com/a.jpg'')
   \<and> e_media_content ex_entry_thumbnail = []
   \<and> e_media_thumbnail ex_entry_thumbnail = [ex_thumbnail]
   \<and> e_enclosures ex_entry_thumbnail = [ex_enclosure_image]
   \<and> entry_image_url ex_world ex_source ex_entry_thumbnail = Some (u ''http://t/1.png'')
   \<and> e_enclosures ex_entry_enclosure = [ex_enclosure_audio, ex_enclosure_image]
   \<and> entry_image_url ex_world ex_source ex_entry_enclosure = Some (u ''http://e/2.jpg'')
   \<and> e_content ex_entry_b = [Some (u ''<img src=/img/a.jpg>'')]
   \<and> find_img_srcs ex_world (u ''<img src=/img/a.jpg>'')
       = [None, Some (u ''data:x''), Some (u ''/img/a.jpg'')]
   \<and> urlparse ex_world (src_url ex_source) = Some (u ''https'', u ''news.example.com'')
   \<and> entry_image_url ex_world ex_source ex_entry_b
       = Some (u ''https://news.example.com/img/a.jpg'')
   \<and> entry_image_url ex_world ex_source ex_entry_nolink = None
   \<and> e_media_content ex_entry_nourl = [ex_media_nourl]
   \<and> is_image_media ex_media_nourl
   \<and> media_url ex_media_nourl = None
   \<and> structured_image ex_entry_nourl = Inl (KeyError, None)
   \<and> entry_image_url ex_world ex_source ex_entry_nourl = None"
proof -
  note tu = image_url_resolution [of ex_entry_nourl ex_world ex_source]
  have u1: "e_media_content ex_entry_nourl = [] @ ex_media_nourl # []"
    by (simp add: ex_entry_nourl_def)
  have u2: "\<forall>p\<in>set []. \<not> is_image_media p" by simp
  have u3: "is_image_media ex_media_nourl"
    by (simp add: is_image_media_def ex_media_nourl_def startswith_def u_def)
  have u4: "media_url ex_media_nourl = None" by (simp add: ex_media_nourl_def)
  note u5 = tu [THEN conjunct2, THEN conjunct2, THEN conjunct2, THEN conjunct2, THEN conjunct2,
        THEN conjunct2, THEN conjunct2, THEN conjunct2, THEN conjunct2, THEN conjunct2,
        THEN conjunct2, THEN conjunct1, rule_format, OF u1 u2 [rule_format] u3 u4]
  from tu [THEN conjunct2, THEN conjunct2, THEN conjunct2, THEN conjunct2, THEN conjunct2,
        THEN conjunct2, THEN conjunct2, THEN conjunct2, THEN conjunct2, THEN conjunct2,
        THEN conjunct2, THEN conjunct2, THEN conjunct2, THEN conjunct2, THEN conjunct2,
        THEN conjunct1, rule_format, OF u1 u2 [rule_format] u3] u4
  have u6: "structured_image ex_entry_nourl = Inl (KeyError, None)" by simp
  note ta = image_url_resolution [of ex_entry_a ex_world ex_source]
  note tt = image_url_resolution [of ex_entry_thumbnail ex_world ex_source]
  note te = image_url_resolution [of ex_entry_enclosure ex_world ex_source]
  note tb = image_url_resolution [of ex_entry_b ex_world ex_source]
  note tn = image_url_resolution [of ex_entry_nolink ex_world ex_source]
  have a1: "e_media_content ex_entry_a = [ex_media_video] @ ex_media_image # []"
    by (simp add: ex_entry_a_def)
  have a2: "\<forall>p\<in>set [ex_media_video]. \<not> is_image_media p"
    by (simp add: is_image_media_def ex_media_video_def startswith_def u_def)
  have a3: "is_image_media ex_media_image"
    by (simp add: is_image_media_def ex_media_image_def startswith_def u_def)
  have a4: "media_url ex_media_image = Some (u ''//cdn.example.com/a.jpg'')"
    by (simp add: ex_media_image_def)
  have a5: "u ''//cdn.example.com/a.jpg'' \<noteq> []" by (simp add: u_def)
  have a6: "startswith (u ''//cdn.example.com/a.jpg'') (u ''//'')"
    by (simp add: startswith_def u_def)
  from ta [THEN conjunct1, rule_format, OF a1 a2 [rule_format] a3 a4 a5]
    ta [THEN conjunct2, THEN conjunct2, THEN conjunct2, THEN conjunct2, THEN conjunct2,
        THEN conjunct2, THEN conjunct2, THEN conjunct2, THEN conjunct1, rule_format, OF a6]
  have ca: "entry_image_url ex_world ex_source ex_entry_a
              = Some (u ''https://cdn.example.com/a.jpg'')"
    by (simp add: u_def)
  have t1: "e_media_content ex_entry_thumbnail = []"
    and t2: "e_media_thumbnail ex_entry_thumbnail = ex_thumbnail # []"
    and t3: "e_enclosures ex_entry_thumbnail = [ex_enclosure_image]"
    by (simp_all add: ex_entry_thumbnail_def)
  have t4: "media_url ex_thumbnail = Some (u ''http://t/1.png'')"
    by (simp add: ex_thumbnail_def)
  have t5: "u ''http://t/1.png'' \<noteq> []" by (simp add: u_def)
  have t6: "startswith (u ''http://t/1.png'') (u ''http'')"
    by (simp add: startswith_def u_def)
  from tt [THEN conjunct2, THEN conjunct2, THEN conjunct1, rule_format, OF t1 t2 t4 t5]
    tt [THEN conjunct2, THEN conjunct2, THEN conjunct2, THEN conjunct2, THEN conjunct2,
        THEN conjunct2, THEN conjunct2, THEN conjunct2, THEN conjunct2, THEN conjunct2,
        THEN conjunct1, rule_format, OF t6]
  have ct: "entry_image_url ex_world ex_source ex_entry_thumbnail = Some (u ''http://t/1.png'')"
    by simp
  have e1: "e_media_content ex_entry_enclosure = []"
    and e2: "e_media_thumbnail ex_entry_enclosure = []"
    and e3: "e_enclosures ex_entry_enclosure = [ex_enclosure_audio] @ ex_enclosure_image # []"
    by (simp_all add: ex_entry_enclosure_def)
  have e4: "\<forall>p\<in>set [ex_enclosure_audio]. \<not> is_image_enclosure p"
    by (simp add: is_image_enclosure_def ex_enclosure_audio_def startswith_def u_def)
  have e5: "is_image_enclosure ex_enclosure_image"
    by (simp add: is_image_enclosure_def ex_enclosure_image_def startswith_def u_def)
  have e6: "enc_href ex_enclosure_image = Some (u ''http://e/2.jpg'')"
    by (simp add: ex_enclosure_image_def)
  have e7: "u ''http://e/2.jpg'' \<noteq> []" by (simp add: u_def)
  have e8: "startswith (u ''http://e/2.jpg'') (u ''http'')"
    by (simp add: startswith_def u_def)
  from te [THEN conjunct2, THEN conjunct2, THEN conjunct2, THEN conjunct1, rule_format,
           OF e1 e2 e3 e4 [rule_format] e5 e6 e7]
    te [THEN conjunct2, THEN conjunct2, THEN conjunct2, THEN conjunct2, THEN conjunct2,
        THEN conjunct2, THEN conjunct2, THEN conjunct2, THEN conjunct2, THEN conjunct2,
        THEN conjunct1, rule_format, OF e8]
  have ce: "entry_image_url ex_world ex_source ex_entry_enclosure = Some (u ''http://e/2.jpg'')"
    by simp
  have b1: "e_media_content ex_entry_b = []" and b2: "e_media_thumbnail ex_entry_b = []"
    and b3: "\<forall>c\<in>set (e_enclosures ex_entry_b). \<not> is_image_enclosure c"
    and b4: "e_content ex_entry_b = Some (u ''<img src=/img/a.jpg>'') # []"
    by (simp_all add: ex_entry_b_def)
  have b5: "u ''<img src=/img/a.jpg>'' \<noteq> []" by (simp add: u_def)
  have b6: "find_img_srcs ex_world (u ''<img src=/img/a.jpg>'')
              = [None, Some (u ''data:x'')] @ Some (u ''/img/a.jpg'') # []"
    by (simp add: ex_world_def)
  have b7: "\<forall>p\<in>set [None, Some (u ''data:x'')]. \<not> usable_src p"
    by (simp add: usable_src_def startswith_def u_def)
  have b8: "usable_src (Some (u ''/img/a.jpg''))"
    by (simp add: usable_src_def startswith_def u_def)
  have b9: "startswith (u ''/img/a.jpg'') (u ''/'')" "\<not> startswith (u ''/img/a.jpg'') (u ''//'')"
    by (simp_all add: startswith_def u_def)
  have b10: "urlparse ex_world (src_url ex_source) = Some (u ''https'', u ''news.example.com'')"
    by (simp add: ex_world_def ex_source_def)
  note b11 = tb [THEN conjunct2, THEN conjunct2, THEN conjunct2, THEN conjunct2, THEN conjunct2,
        THEN conjunct2, THEN conjunct1, rule_format, OF b4]
  from tb [THEN conjunct2, THEN conjunct2, THEN conjunct2, THEN conjunct2, THEN conjunct1,
           rule_format, OF b1 b2 b3 [rule_format] b11 b5 b6 b7 [rule_format] b8]
    tb [THEN conjunct2, THEN conjunct2, THEN conjunct2, THEN conjunct2, THEN conjunct2,
        THEN conjunct2, THEN conjunct2, THEN conjunct2, THEN conjunct2, THEN conjunct1,
        rule_format, OF b9 b10]
  have cb: "entry_image_url ex_world ex_source ex_entry_b
              = Some (u ''https://news.example.com/img/a.jpg'')"
    by (simp add: u_def)
  have n1: "e_media_content ex_entry_nolink = []" and n2: "e_media_thumbnail ex_entry_nolink = []"
    and n3: "\<forall>c\<in>set (e_enclosures ex_entry_nolink). \<not> is_image_enclosure c"
    and n4: "content_to_search ex_entry_nolink = Inr []"
    by (simp_all add: ex_entry_nolink_def content_to_search_def)
  have n5: "\<forall>p\<in>set (find_img_srcs ex_world []). \<not> usable_src p"
    by (simp add: ex_world_def u_def)
  from tn [THEN conjunct2, THEN conjunct2, THEN conjunct2, THEN conjunct2, THEN conjunct2,
           THEN conjunct1, rule_format, OF n1 n2 n3 [rule_format] n4 n5 [rule_format]]
  have cn: "entry_image_url ex_world ex_source ex_entry_nolink = None" .
  show ?thesis
    using a1 a2 a3 a4 ca t1 t2 t3 ct e3 ce b4 b6 b10 cb cn u1 u3 u4 u5 u6 by simp
qed


text \<open>
  The claim as the specification words it fails: the chain does not go on to the next
  field when the one it reads has no URL. The entry below has a media element of an
  image type without \<^verbatim>\<open>url\<close>, a thumbnail with a URL, an image enclosure and an \<^verbatim>\<open>img\<close>
  tag with a root-relative \<^verbatim>\<open>src\<close>; it gets no image.
\<close>

theorem image_without_url_counterexample:
  "e_media_content ex_entry_nourl = [ex_media_nourl]
   \<and> is_image_media ex_media_nourl
   \<and> media_url ex_media_nourl = None
   \<and> e_media_thumbnail ex_entry_nourl = [ex_thumbnail]
   \<and> media_url ex_thumbnail = Some (u ''http://t/1.png'')
   \<and> e_enclosures ex_entry_nourl = [ex_enclosure_image]
   \<and> is_image_enclosure ex_enclosure_image
   \<and> enc_href ex_enclosure_image = Some (u ''http://e/2.jpg'')
   \<and> e_content ex_entry_nourl = [Some (u ''<img src=/img/a.jpg>'')]
   \<and> find_img_srcs ex_world (u ''<img src=/img/a.jpg>'')
       = [None, Some (u ''data:x''), Some (u ''/img/a.jpg'')]
   \<and> usable_src (Some (u ''/img/a.jpg''))
   \<and> entry_image_url ex_world ex_source ex_entry_nourl = None"
proof -
  have a: "e_media_content ex_entry_nourl = [ex_media_nourl]"
    "e_media_thumbnail ex_entry_nourl = [ex_thumbnail]"
    "e_enclosures ex_entry_nourl = [ex_enclosure_image]"
    "e_content ex_entry_nourl = [Some (u ''<img src=/img/a.jpg>'')]"
    by (simp_all add: ex_entry_nourl_def)
  have b: "is_image_media ex_media_nourl" "media_url ex_media_nourl = None"
    "media_url ex_thumbnail = Some (u ''http://t/1.png'')"
    "is_image_enclosure ex_enclosure_image"
    "enc_href ex_enclosure_image = Some (u ''http://e/2.jpg'')"
    "usable_src (Some (u ''/img/a.jpg''))"
    by (simp_all add: is_image_media_def ex_media_nourl_def ex_thumbnail_def
          is_image_enclosure_def ex_enclosure_image_def usable_src_def startswith_def u_def)
  have c: "find_img_srcs ex_world (u ''<img src=/img/a.jpg>'')
             = [None, Some (u ''data:x''), Some (u ''/img/a.jpg'')]"
    by (simp add: ex_world_def)
  show ?thesis using a b c ex_image_nourl by simp
qed

end
